theory Spec2Isabelle
  imports Main
begin

section \<open>The Tetris component: data model\<close>

text \<open>
  A shallow embedding of \<^verbatim>\<open>src/components/Tetris.tsx\<close>. The component keeps its
  state in eight \<^verbatim>\<open>useState\<close> cells; every callback reads the values of the render
  it was created in and queues new values with the setters. A callback is therefore a
  function from the rendered state to the state of the next render, or to the
  exception that escapes from it.
\<close>

subsection \<open>Values held in arrays\<close>

text \<open>
  A mask or board cell is a JavaScript number, tested for truthiness. Reading an array
  beyond its length yields \<^verbatim>\<open>undefined\<close>, which is falsy. A board row can moreover get
  holes when an index past its end is assigned; a hole reads as \<^verbatim>\<open>undefined\<close>, is
  skipped by \<^verbatim>\<open>every\<close> and becomes a plain \<^verbatim>\<open>undefined\<close> element under the spread
  \<^verbatim>\<open>[...row]\<close>. Masks are never assigned to, so they have elements only.
\<close>

datatype jsval = Num int | Undefined

datatype slot = Elem jsval | Hole

datatype error = TypeError

fun truthy :: "jsval \<Rightarrow> bool" where
  "truthy (Num n) = (n \<noteq> 0)"
| "truthy Undefined = False"

fun readSlot :: "slot \<Rightarrow> jsval" where
  "readSlot (Elem v) = v"
| "readSlot Hole = Undefined"

type_synonym TetrominoType = "jsval list list"

type_synonym row = "slot list"

type_synonym board = "row list"

text \<open>The fields \<^verbatim>\<open>x\<close> and \<^verbatim>\<open>y\<close> of the source's \<^verbatim>\<open>Position\<close> are \<open>px\<close> and \<open>py\<close>.\<close>

record Position =
  px :: int
  py :: int

definition BOARD_WIDTH :: nat where
  "BOARD_WIDTH = 10"

definition BOARD_HEIGHT :: nat where
  "BOARD_HEIGHT = 20"

definition INITIAL_SPEED :: int where
  "INITIAL_SPEED = 800"

subsection \<open>The shape catalogue\<close>

text \<open>
  The keys of \<^verbatim>\<open>TETROMINOES\<close>, in the order \<^verbatim>\<open>Object.keys\<close> lists them. The
  constructors carry a prefix since \<open>O\<close> is taken by relation composition.
\<close>

datatype kind = KI | KO | KT | KL | KJ | KS | KZ

fun TETROMINOES :: "kind \<Rightarrow> TetrominoType" where
  "TETROMINOES KI = [[Num 1, Num 1, Num 1, Num 1]]"
| "TETROMINOES KO = [[Num 1, Num 1],
                     [Num 1, Num 1]]"
| "TETROMINOES KT = [[Num 0, Num 1, Num 0],
                     [Num 1, Num 1, Num 1]]"
| "TETROMINOES KL = [[Num 1, Num 0],
                     [Num 1, Num 0],
                     [Num 1, Num 1]]"
| "TETROMINOES KJ = [[Num 0, Num 1],
                     [Num 0, Num 1],
                     [Num 1, Num 1]]"
| "TETROMINOES KS = [[Num 0, Num 1, Num 1],
                     [Num 1, Num 1, Num 0]]"
| "TETROMINOES KZ = [[Num 1, Num 1, Num 0],
                     [Num 0, Num 1, Num 1]]"

subsection \<open>The board and the component state\<close>

text \<open>
  \<^verbatim>\<open>Array(BOARD_HEIGHT).fill(Array(BOARD_WIDTH).fill(0))\<close> puts one row object
  into all twenty places. No callback writes into a row of the state (the merge works
  on copies of the rows), so the sharing is not observable and the board is a value.
\<close>

definition createEmptyBoard :: board where
  "createEmptyBoard = replicate BOARD_HEIGHT (replicate BOARD_WIDTH (Elem (Num 0)))"

text \<open>
  The score is a number that the merge can turn into \<^verbatim>\<open>NaN\<close>: the points table has
  five entries, and adding \<^verbatim>\<open>undefined\<close> to a number gives \<^verbatim>\<open>NaN\<close>.
\<close>

datatype scoreval = Points int | NaN

record session =
  board :: board
  position :: Position
  tetromino :: TetrominoType
  tetrominoType :: kind
  score :: scoreval
  gameOver :: bool
  isPaused :: bool
  speed :: int

definition initial :: session where
  "initial = \<lparr> board = createEmptyBoard,
               position = \<lparr> px = 4, py = 0 \<rparr>,
               tetromino = TETROMINOES KI,
               tetrominoType = KI,
               score = Points 0,
               gameOver = False,
               isPaused = False,
               speed = INITIAL_SPEED \<rparr>"

text \<open>
  \<^verbatim>\<open>getRandomTetromino\<close> draws an index below seven from \<^verbatim>\<open>Math.random\<close>; the
  draw is a parameter of every callback that spawns.
\<close>

definition getRandomTetromino :: "kind \<Rightarrow> kind \<times> TetrominoType" where
  "getRandomTetromino k = (k, TETROMINOES k)"

section \<open>Collision\<close>

text \<open>\<^verbatim>\<open>board[newY]\<close>: a row, or \<^verbatim>\<open>undefined\<close>, whose indexing throws.\<close>

definition rowAt :: "board \<Rightarrow> nat \<Rightarrow> error + row" where
  "rowAt b i = (if i < length b then Inr (b ! i) else Inl TypeError)"

text \<open>\<^verbatim>\<open>row[newX]\<close> for an index that is not negative.\<close>

definition cellAt :: "row \<Rightarrow> nat \<Rightarrow> jsval" where
  "cellAt r i = (if i < length r then readSlot (r ! i) else Undefined)"

text \<open>
  The inner loop of \<^verbatim>\<open>isColliding\<close> over the cells of one mask row, from column
  \<open>newX\<close> on; \<open>Inr True\<close> is the early \<^verbatim>\<open>return true\<close>.
\<close>

fun collidingRow :: "board \<Rightarrow> int \<Rightarrow> int \<Rightarrow> jsval list \<Rightarrow> error + bool" where
  "collidingRow b newY newX [] = Inr False"
| "collidingRow b newY newX (c # cs) =
     (if truthy c then
        (if newX < 0 \<or> newX \<ge> int BOARD_WIDTH \<or> newY \<ge> int BOARD_HEIGHT then Inr True
         else if newY \<ge> 0 then
           (case rowAt b (nat newY) of
              Inl e \<Rightarrow> Inl e
            | Inr r \<Rightarrow> if truthy (cellAt r (nat newX)) then Inr True
                       else collidingRow b newY (newX + 1) cs)
         else collidingRow b newY (newX + 1) cs)
      else collidingRow b newY (newX + 1) cs)"

text \<open>The outer loop over the mask rows, the first of them at board row \<open>newY\<close>.\<close>

fun collidingRows :: "board \<Rightarrow> int \<Rightarrow> int \<Rightarrow> TetrominoType \<Rightarrow> error + bool" where
  "collidingRows b x0 newY [] = Inr False"
| "collidingRows b x0 newY (r # rs) =
     (case collidingRow b newY x0 r of
        Inl e \<Rightarrow> Inl e
      | Inr True \<Rightarrow> Inr True
      | Inr False \<Rightarrow> collidingRows b x0 (newY + 1) rs)"

definition isColliding :: "board \<Rightarrow> Position \<Rightarrow> TetrominoType \<Rightarrow> error + bool" where
  "isColliding b pos shape = collidingRows b (px pos) (py pos) shape"

section \<open>Rotation\<close>

text \<open>\<^verbatim>\<open>row[i]\<close> on a mask row.\<close>

definition elemAt :: "jsval list \<Rightarrow> nat \<Rightarrow> jsval" where
  "elemAt r i = (if i < length r then r ! i else Undefined)"

text \<open>
  The transform of \<^verbatim>\<open>rotate\<close>:
  \<^verbatim>\<open>tetromino[0].map((_, i) => tetromino.map((row) => row[i]).reverse())\<close>.
  On a mask without rows \<^verbatim>\<open>tetromino[0]\<close> is \<^verbatim>\<open>undefined\<close> and \<^verbatim>\<open>.map\<close> throws.
\<close>

definition rotated :: "TetrominoType \<Rightarrow> error + TetrominoType" where
  "rotated t =
     (case t of
        [] \<Rightarrow> Inl TypeError
      | r0 # _ \<Rightarrow> Inr (map (\<lambda>i. rev (map (\<lambda>row. elemAt row i) t)) [0..<length r0]))"

definition rotate :: "session \<Rightarrow> error + session" where
  "rotate s =
     (case rotated (tetromino s) of
        Inl e \<Rightarrow> Inl e
      | Inr rot \<Rightarrow>
          (case isColliding (board s) (position s) rot of
             Inl e \<Rightarrow> Inl e
           | Inr c \<Rightarrow> if \<not> c then Inr (s\<lparr>tetromino := rot\<rparr>) else Inr s))"

section \<open>Moves\<close>

definition moveHorizontal :: "int \<Rightarrow> session \<Rightarrow> error + session" where
  "moveHorizontal delta s =
     (let newPos = (position s)\<lparr>px := px (position s) + delta\<rparr>
      in case isColliding (board s) newPos (tetromino s) of
           Inl e \<Rightarrow> Inl e
         | Inr c \<Rightarrow> if \<not> c then Inr (s\<lparr>position := newPos\<rparr>) else Inr s)"

text \<open>\<^verbatim>\<open>moveDown\<close> also returns whether it queued the new position.\<close>

definition moveDown :: "session \<Rightarrow> error + (bool \<times> session)" where
  "moveDown s =
     (let newPos = (position s)\<lparr>py := py (position s) + 1\<rparr>
      in case isColliding (board s) newPos (tetromino s) of
           Inl e \<Rightarrow> Inl e
         | Inr c \<Rightarrow> if \<not> c then Inr (True, s\<lparr>position := newPos\<rparr>) else Inr (False, s))"

section \<open>Locking a piece and clearing lines\<close>

text \<open>\<^verbatim>\<open>[...row]\<close>: the spread reads every index, so a hole is copied as an element.\<close>

definition copyRow :: "row \<Rightarrow> row" where
  "copyRow r = map (\<lambda>sl. Elem (readSlot sl)) r"

text \<open>
  \<^verbatim>\<open>row[i] = v\<close>: a negative index names a property that is no element, an index
  inside the row replaces the element, an index beyond it grows the row and leaves
  holes in between.
\<close>

definition assignAt :: "row \<Rightarrow> int \<Rightarrow> slot \<Rightarrow> row" where
  "assignAt r i v =
     (if i < 0 then r
      else if nat i < length r then r[nat i := v]
      else r @ replicate (nat i - length r) Hole @ [v])"

text \<open>The first loop of \<^verbatim>\<open>mergeTetromino\<close> either returns early or ends with a board.\<close>

datatype merged = TopOut | Merged board

fun mergeRow :: "board \<Rightarrow> int \<Rightarrow> int \<Rightarrow> jsval list \<Rightarrow> error + merged" where
  "mergeRow nb boardY bx [] = Inr (Merged nb)"
| "mergeRow nb boardY bx (c # cs) =
     (if truthy c then
        (if boardY < 0 then Inr TopOut
         else (case rowAt nb (nat boardY) of
                 Inl e \<Rightarrow> Inl e
               | Inr r \<Rightarrow>
                   mergeRow (nb[nat boardY := assignAt r bx (Elem (Num 1))]) boardY (bx + 1) cs))
      else mergeRow nb boardY (bx + 1) cs)"

fun mergeRows :: "board \<Rightarrow> int \<Rightarrow> int \<Rightarrow> TetrominoType \<Rightarrow> error + merged" where
  "mergeRows nb x0 boardY [] = Inr (Merged nb)"
| "mergeRows nb x0 boardY (r # rs) =
     (case mergeRow nb boardY x0 r of
        Inl e \<Rightarrow> Inl e
      | Inr TopOut \<Rightarrow> Inr TopOut
      | Inr (Merged nb') \<Rightarrow> mergeRows nb' x0 (boardY + 1) rs)"

text \<open>\<^verbatim>\<open>newBoard[y].every((cell) => cell)\<close>; \<^verbatim>\<open>every\<close> does not visit holes.\<close>

definition everyCell :: "row \<Rightarrow> bool" where
  "everyCell r = list_all (\<lambda>sl. case sl of Elem v \<Rightarrow> truthy v | Hole \<Rightarrow> True) r"

definition emptyRow :: row where
  "emptyRow = replicate BOARD_WIDTH (Elem (Num 0))"

text \<open>
  The second loop, \<^verbatim>\<open>for (let y = BOARD_HEIGHT - 1; y >= 0; y--)\<close>: \<open>clearLines n\<close>
  has the indices below \<open>n\<close> still to visit. A full row is spliced out and an empty row
  is put in front, after which the loop goes on to index \<open>y - 1\<close>.
\<close>

fun clearLines :: "nat \<Rightarrow> board \<Rightarrow> nat \<Rightarrow> error + (board \<times> nat)" where
  "clearLines 0 nb completedLines = Inr (nb, completedLines)"
| "clearLines (Suc y) nb completedLines =
     (case rowAt nb y of
        Inl e \<Rightarrow> Inl e
      | Inr r \<Rightarrow>
          if everyCell r
          then clearLines y (emptyRow # (take y nb @ drop (Suc y) nb)) (completedLines + 1)
          else clearLines y nb completedLines)"

text \<open>
  \<^verbatim>\<open>[0, 100, 300, 500, 800][completedLines]\<close> and \<^verbatim>\<open>prev + points\<close>. The sum
  is the exact one; the source adds doubles, which agrees for scores of a size below
  \<open>2 ^ 53\<close> and is rounded beyond.
\<close>

definition pointsFor :: "nat \<Rightarrow> int option" where
  "pointsFor n = (if n < 5 then Some ([0, 100, 300, 500, 800] ! n) else None)"

fun addPoints :: "scoreval \<Rightarrow> int option \<Rightarrow> scoreval" where
  "addPoints (Points p) (Some q) = Points (p + q)"
| "addPoints _ _ = NaN"

text \<open>
  \<^verbatim>\<open>setBoard(newBoard)\<close> is called before the clearing loop, which then edits the
  very array that was handed over; the next render shows the board as the loop left it.
  On the early return only \<^verbatim>\<open>setGameOver(true)\<close> has been called.
\<close>

definition mergeTetromino :: "session \<Rightarrow> kind \<Rightarrow> error + session" where
  "mergeTetromino s k =
     (case mergeRows (map copyRow (board s)) (px (position s)) (py (position s)) (tetromino s) of
        Inl e \<Rightarrow> Inl e
      | Inr TopOut \<Rightarrow> Inr (s\<lparr>gameOver := True\<rparr>)
      | Inr (Merged nb) \<Rightarrow>
          (case clearLines BOARD_HEIGHT nb 0 of
             Inl e \<Rightarrow> Inl e
           | Inr (nb', completedLines) \<Rightarrow>
               (case getRandomTetromino k of
                  (type, shape) \<Rightarrow>
                    Inr (s\<lparr> board := nb',
                            score := (if completedLines > 0
                                      then addPoints (score s) (pointsFor completedLines)
                                      else score s),
                            speed := (if completedLines > 0
                                      then max 100 (speed s - 10)
                                      else speed s),
                            tetromino := shape,
                            tetrominoType := type,
                            position := \<lparr> px = 4, py = 0 \<rparr> \<rparr>))))"

section \<open>Reset, pause, keys and the timer\<close>

definition resetGame :: "session \<Rightarrow> kind \<Rightarrow> session" where
  "resetGame s k =
     (case getRandomTetromino k of
        (type, shape) \<Rightarrow>
          s\<lparr> board := createEmptyBoard,
             position := \<lparr> px = 4, py = 0 \<rparr>,
             tetromino := shape,
             tetrominoType := type,
             score := Points 0,
             gameOver := False,
             speed := INITIAL_SPEED \<rparr>)"

text \<open>The pause button: \<^verbatim>\<open>onClick={() => setIsPaused(!isPaused)}\<close>.\<close>

definition togglePause :: "session \<Rightarrow> session" where
  "togglePause s = s\<lparr>isPaused := \<not> isPaused s\<rparr>"

text \<open>
  The hard drop is \<^verbatim>\<open>while (moveDown()) {}\<close>. \<^verbatim>\<open>moveDown\<close> is the callback of the
  current render: \<^verbatim>\<open>position\<close>, \<^verbatim>\<open>board\<close> and \<^verbatim>\<open>tetromino\<close> are constants of its
  closure, and \<^verbatim>\<open>setPosition\<close> only queues a value for the next render. Every round of
  the loop therefore tests the rendered state \<open>snap\<close> again, while the queued state
  \<open>pending\<close> is what the handler leaves behind if the loop ends. The loop need not end,
  so it is a partial function and \<open>None\<close> stands for a handler that never returns.
\<close>

partial_function (option) hardDropLoop :: "session \<Rightarrow> session \<Rightarrow> (error + session) option" where
  "hardDropLoop snap pending =
     (case moveDown snap of
        Inl e \<Rightarrow> Some (Inl e)
      | Inr (moved, s') \<Rightarrow>
          if moved then hardDropLoop snap s' else Some (Inr pending))"

datatype key = ArrowLeft | ArrowRight | ArrowDown | ArrowUp | Space | OtherKey

fun handleKeyPress :: "key \<Rightarrow> session \<Rightarrow> (error + session) option" where
  "handleKeyPress e s =
     (if gameOver s \<or> isPaused s then Some (Inr s)
      else (case e of
              ArrowLeft \<Rightarrow> Some (moveHorizontal (- 1) s)
            | ArrowRight \<Rightarrow> Some (moveHorizontal 1 s)
            | ArrowDown \<Rightarrow> Some (map_sum id snd (moveDown s))
            | ArrowUp \<Rightarrow> Some (rotate s)
            | Space \<Rightarrow> hardDropLoop s s
            | OtherKey \<Rightarrow> Some (Inr s)))"

text \<open>The callback handed to \<^verbatim>\<open>useInterval\<close>.\<close>

definition tickCallback :: "session \<Rightarrow> kind \<Rightarrow> error + session" where
  "tickCallback s k =
     (case moveDown s of
        Inl e \<Rightarrow> Inl e
      | Inr (moved, s') \<Rightarrow> if \<not> moved then mergeTetromino s k else Inr s')"

text \<open>
  Modelled from the spec: the hook \<^verbatim>\<open>useInterval\<close> of \<^verbatim>\<open>../hooks/useInterval\<close> is
  not among the sources. The spec has the tick ignored while the session is paused or
  over, so a \<^verbatim>\<open>null\<close> delay (\<open>None\<close>) runs no timer and any other delay runs the
  callback once per tick.
\<close>

definition useInterval :: "(session \<Rightarrow> error + session) \<Rightarrow> int option \<Rightarrow> session \<Rightarrow> error + session" where
  "useInterval callback delay s = (case delay of None \<Rightarrow> Inr s | Some _ \<Rightarrow> callback s)"

definition tick :: "session \<Rightarrow> kind \<Rightarrow> error + session" where
  "tick s k =
     useInterval (\<lambda>s. tickCallback s k)
       (if \<not> gameOver s \<and> \<not> isPaused s then Some (speed s) else None) s"

section \<open>Runs of the component\<close>

text \<open>
  One event is handled per render: a timer tick, a key, or a click on the pause or
  on a reset button. A handler that throws or does not return has no next state.
\<close>

datatype event = Tick kind | Key key | PauseClick | ResetClick kind

fun step :: "event \<Rightarrow> session \<Rightarrow> (error + session) option" where
  "step (Tick k) s = Some (tick s k)"
| "step (Key e) s = handleKeyPress e s"
| "step PauseClick s = Some (Inr (togglePause s))"
| "step (ResetClick k) s = Some (Inr (resetGame s k))"

inductive reachable :: "session \<Rightarrow> bool" where
  reachable_initial: "reachable initial"
| reachable_step: "reachable s \<Longrightarrow> step ev s = Some (Inr s') \<Longrightarrow> reachable s'"

text \<open>A run handles one event after the other and stops where a handler fails.\<close>

fun run :: "event list \<Rightarrow> session \<Rightarrow> (error + session) option" where
  "run [] s = Some (Inr s)"
| "run (ev # evs) s =
     (case step ev s of
        None \<Rightarrow> None
      | Some (Inl e) \<Rightarrow> Some (Inl e)
      | Some (Inr s') \<Rightarrow> run evs s')"

fun isTickOrKey :: "event \<Rightarrow> bool" where
  "isTickOrKey (Tick k) = True"
| "isTickOrKey (Key e) = True"
| "isTickOrKey PauseClick = False"
| "isTickOrKey (ResetClick k) = False"

section \<open>Notions used in the properties\<close>

text \<open>
  What \<^verbatim>\<open>isColliding\<close> asks of a set mask cell that lands on column \<open>ax\<close> and row
  \<open>ay\<close> of the board: inside the columns, not below the bottom row, and not on an
  occupied cell unless it is above the top row.
\<close>

definition cellFree :: "board \<Rightarrow> int \<Rightarrow> int \<Rightarrow> bool" where
  "cellFree b ax ay =
     (0 \<le> ax \<and> ax < int BOARD_WIDTH \<and> ay < int BOARD_HEIGHT \<and>
      (0 \<le> ay \<longrightarrow> \<not> truthy (cellAt (b ! nat ay) (nat ax))))"

text \<open>Pressing the rotation \<open>n\<close> times with nothing in the way: the transform, iterated.\<close>

fun rotations :: "nat \<Rightarrow> TetrominoType \<Rightarrow> error + TetrominoType" where
  "rotations 0 t = Inr t"
| "rotations (Suc n) t = (case rotated t of Inl e \<Rightarrow> Inl e | Inr t' \<Rightarrow> rotations n t')"

text \<open>A mask whose bounding box has \<open>h\<close> rows and \<open>w\<close> columns.\<close>

definition hasBox :: "TetrominoType \<Rightarrow> nat \<Rightarrow> nat \<Rightarrow> bool" where
  "hasBox t h w = (length t = h \<and> (\<forall>r \<in> set t. length r = w))"

text \<open>The board of the data model: twenty rows of ten slots.\<close>

definition wf_board :: "board \<Rightarrow> bool" where
  "wf_board b = (length b = BOARD_HEIGHT \<and> (\<forall>r \<in> set b. length r = BOARD_WIDTH))"

text \<open>Every set cell of the mask at \<open>pos\<close> lies on a cell of the grid.\<close>

definition inGrid :: "Position \<Rightarrow> TetrominoType \<Rightarrow> bool" where
  "inGrid pos shape =
     (\<forall>cy<length shape. \<forall>cx<length (shape ! cy). truthy (shape ! cy ! cx) \<longrightarrow>
        0 \<le> px pos + int cx \<and> px pos + int cx < int BOARD_WIDTH \<and>
        0 \<le> py pos + int cy \<and> py pos + int cy < int BOARD_HEIGHT)"

definition invariant :: "session \<Rightarrow> bool" where
  "invariant s =
     (wf_board (board s) \<and> 0 \<le> py (position s) \<and> inGrid (position s) (tetromino s) \<and>
      \<not> gameOver s)"

text \<open>The active mask has a bounding box with at least one row and one column.\<close>

definition shaped :: "session \<Rightarrow> bool" where
  "shaped s = (\<exists>h w. hasBox (tetromino s) h w \<and> 0 < h \<and> 0 < w)"

subsection \<open>Example states\<close>

text \<open>The first piece, lifted one row above the board.\<close>

definition aboveTop :: session where
  "aboveTop = initial\<lparr>position := \<lparr>px = 4, py = - 1\<rparr>\<rparr>"

text \<open>Board rows: all ten cells set, all but columns 4 and 5 set, only columns 4 and 5 set.\<close>

definition fullRow :: row where
  "fullRow = replicate BOARD_WIDTH (Elem (Num 1))"

definition gapRow :: row where
  "gapRow = replicate 4 (Elem (Num 1)) @ replicate 2 (Elem (Num 0)) @ replicate 4 (Elem (Num 1))"

definition pairRow :: row where
  "pairRow = replicate 4 (Elem (Num 0)) @ replicate 2 (Elem (Num 1)) @ replicate 4 (Elem (Num 0))"

text \<open>
  The two bottom rows lack columns 4 and 5 only, and an O piece sits in the gap with
  its lower cells on the bottom row.
\<close>

definition twoGapRows :: session where
  "twoGapRows = initial\<lparr> board := replicate 18 emptyRow @ [gapRow, gapRow],
                          position := \<lparr>px = 4, py = 18\<rparr>,
                          tetromino := TETROMINOES KO,
                          tetrominoType := KO \<rparr>"

text \<open>An O piece on the empty board, first where it spawns, then resting on the floor.\<close>

definition spawnedO :: session where
  "spawnedO = initial\<lparr> tetromino := TETROMINOES KO, tetrominoType := KO \<rparr>"

definition restingO :: session where
  "restingO = initial\<lparr> position := \<lparr>px = 4, py = 18\<rparr>,
                        tetromino := TETROMINOES KO,
                        tetrominoType := KO \<rparr>"

text \<open>The empty board with its bottom row filled.\<close>

definition floorFull :: board where
  "floorFull = replicate 19 emptyRow @ [fullRow]"

text \<open>A full row between two rows that are not full, on an otherwise empty board.\<close>

definition oneFullRow :: board where
  "oneFullRow = replicate 10 emptyRow @ [pairRow, fullRow, gapRow] @ replicate 7 emptyRow"

text \<open>
  A game that leads to \<open>twoGapRows\<close>: after a reset that draws an O piece, four O
  pieces are moved to columns 0, 2, 6 and 8 and left to the timer, and a fifth one
  falls from the spawn column until it rests in the gap.
\<close>

definition twoGapRowsGame :: "event list" where
  "twoGapRowsGame =
     [ResetClick KO] @
     replicate 4 (Key ArrowLeft) @ replicate 19 (Tick KO) @
     replicate 2 (Key ArrowLeft) @ replicate 19 (Tick KO) @
     replicate 2 (Key ArrowRight) @ replicate 19 (Tick KO) @
     replicate 4 (Key ArrowRight) @ replicate 19 (Tick KO) @
     replicate 18 (Tick KO)"

section \<open>Properties\<close>

subsection \<open>Collision\<close>

lemma collidingRow_eq:
  "length b = BOARD_HEIGHT \<Longrightarrow>
   collidingRow b newY newX cs =
     Inr (\<not> (\<forall>i<length cs. truthy (cs ! i) \<longrightarrow> cellFree b (newX + int i) newY))"
proof (induction cs arbitrary: newX)
  case Nil
  then show ?case by simp
next
  case (Cons c cs)
  define Q where "Q = (\<forall>i<length cs. truthy (cs ! i) \<longrightarrow> cellFree b (newX + int (Suc i)) newY)"
  have "newX + 1 + int i = newX + int (Suc i)" for i by simp
  with Cons.IH [OF Cons.prems, of "newX + 1"]
  have tl: "collidingRow b newY (newX + 1) cs = Inr (\<not> Q)"
    unfolding Q_def by presburger
  have split: "(\<forall>i<length (c # cs). truthy ((c # cs) ! i) \<longrightarrow> cellFree b (newX + int i) newY) =
               ((truthy c \<longrightarrow> cellFree b newX newY) \<and> Q)"
    unfolding Q_def by (simp add: All_less_Suc2 del: of_nat_Suc)
  have "collidingRow b newY newX (c # cs) = Inr (\<not> ((truthy c \<longrightarrow> cellFree b newX newY) \<and> Q))"
    using Cons.prems by (auto simp: tl rowAt_def cellFree_def)
  with split show ?case by simp
qed

lemma collidingRows_eq:
  "length b = BOARD_HEIGHT \<Longrightarrow>
   collidingRows b x0 newY rs =
     Inr (\<not> (\<forall>j<length rs. \<forall>i<length (rs ! j).
                truthy (rs ! j ! i) \<longrightarrow> cellFree b (x0 + int i) (newY + int j)))"
proof (induction rs arbitrary: newY)
  case Nil
  then show ?case by simp
next
  case (Cons r rs)
  define Q where "Q = (\<forall>j<length rs. \<forall>i<length (rs ! j).
                  truthy (rs ! j ! i) \<longrightarrow> cellFree b (x0 + int i) (newY + int (Suc j)))"
  define R where "R = (\<forall>i<length r. truthy (r ! i) \<longrightarrow> cellFree b (x0 + int i) newY)"
  have "newY + 1 + int j = newY + int (Suc j)" for j by simp
  with Cons.IH [OF Cons.prems, of "newY + 1"]
  have tl: "collidingRows b x0 (newY + 1) rs = Inr (\<not> Q)"
    unfolding Q_def by presburger
  have hd: "collidingRow b newY x0 r = Inr (\<not> R)"
    unfolding R_def by (rule collidingRow_eq [OF Cons.prems])
  have split: "(\<forall>j<length (r # rs). \<forall>i<length ((r # rs) ! j).
                  truthy ((r # rs) ! j ! i) \<longrightarrow> cellFree b (x0 + int i) (newY + int j)) =
               (R \<and> Q)"
    unfolding Q_def R_def by (simp add: All_less_Suc2 del: of_nat_Suc)
  have "collidingRows b x0 newY (r # rs) = Inr (\<not> (R \<and> Q))"
    by (cases R) (simp_all add: hd tl)
  with split show ?case by simp
qed

lemma isColliding_eq:
  "length b = BOARD_HEIGHT \<Longrightarrow>
   isColliding b pos shape =
     Inr (\<not> (\<forall>cy<length shape. \<forall>cx<length (shape ! cy).
                truthy (shape ! cy ! cx) \<longrightarrow> cellFree b (px pos + int cx) (py pos + int cy)))"
  by (simp add: isColliding_def collidingRows_eq)

lemma not_truthy_readSlot:
  "(\<not> truthy (readSlot sl)) = (\<forall>n. sl = Elem (Num n) \<longrightarrow> n = 0)"
proof (cases sl)
  case (Elem v)
  then show ?thesis by (cases v) auto
next
  case Hole
  then show ?thesis by simp
qed

lemma cellFree_indexed:
  assumes "wf_board b"
  shows "cellFree b ax ay =
     (0 \<le> ax \<and> ax < int BOARD_WIDTH \<and> ay < int BOARD_HEIGHT \<and>
      (0 \<le> ay \<longrightarrow> (\<forall>n. b ! nat ay ! nat ax = Elem (Num n) \<longrightarrow> n = 0)))"
proof (cases "0 \<le> ax \<and> ax < int BOARD_WIDTH \<and> 0 \<le> ay \<and> ay < int BOARD_HEIGHT")
  case True
  with assms have "nat ay < length b" by (auto simp: wf_board_def nat_less_iff)
  with assms have "length (b ! nat ay) = BOARD_WIDTH" by (simp add: wf_board_def)
  with True have "cellAt (b ! nat ay) (nat ax) = readSlot (b ! nat ay ! nat ax)"
    by (auto simp: cellAt_def nat_less_iff)
  with True show ?thesis by (simp add: cellFree_def not_truthy_readSlot)
next
  case False
  then show ?thesis by (auto simp: cellFree_def)
qed

text \<open>
  Claim C6. On a board of twenty rows of ten cells \<^verbatim>\<open>isColliding\<close> throws nothing
  and answers false exactly when every set cell of the mask, placed at the origin, has
  its column from 0 to 9, its row below 20 and, if its row is 0 or more, lies on a
  board cell that does not hold a number other than 0. A set cell on a row below zero
  is asked for its column only.
\<close>

theorem isColliding_false_iff:
  assumes "wf_board b"
  shows "(isColliding b pos shape = Inr False \<or> isColliding b pos shape = Inr True) \<and>
         ((isColliding b pos shape = Inr False) =
          (\<forall>cy<length shape. \<forall>cx<length (shape ! cy). truthy (shape ! cy ! cx) \<longrightarrow>
             0 \<le> px pos + int cx \<and> px pos + int cx < int BOARD_WIDTH \<and>
             py pos + int cy < int BOARD_HEIGHT \<and>
             (0 \<le> py pos + int cy \<longrightarrow>
                (\<forall>n. b ! nat (py pos + int cy) ! nat (px pos + int cx) = Elem (Num n) \<longrightarrow> n = 0))))"
proof -
  from assms have len: "length b = BOARD_HEIGHT" by (simp add: wf_board_def)
  show ?thesis
    unfolding isColliding_eq [OF len] cellFree_indexed [OF assms] by auto
qed

text \<open>
  An O piece on the board \<open>floorFull\<close>: it collides with the filled bottom row from
  origin (4, 18) and with the right wall from origin (9, 0); it is free at origin
  (4, 17) and, half above the board, at origin (4, - 1).
\<close>

theorem isColliding_false_iff_witness:
  "isColliding floorFull \<lparr>px = 4, py = 18\<rparr> (TETROMINOES KO) = Inr True \<and>
   isColliding floorFull \<lparr>px = 4, py = 17\<rparr> (TETROMINOES KO) = Inr False \<and>
   isColliding floorFull \<lparr>px = 4, py = - 1\<rparr> (TETROMINOES KO) = Inr False \<and>
   isColliding floorFull \<lparr>px = 9, py = 0\<rparr> (TETROMINOES KO) = Inr True"
proof -
  have wf: "wf_board floorFull"
    by (auto simp: wf_board_def floorFull_def BOARD_HEIGHT_def emptyRow_def fullRow_def)
  have empty: "floorFull ! y ! x = Elem (Num 0)" if "y < 19" "x < 10" for y x
    using that by (simp add: floorFull_def nth_append emptyRow_def BOARD_WIDTH_def)
  have full: "floorFull ! 19 ! 4 = Elem (Num 1)"
    by (simp add: floorFull_def nth_append fullRow_def BOARD_WIDTH_def)
  let ?fits = "\<lambda>pos. \<forall>cy<length (TETROMINOES KO). \<forall>cx<length (TETROMINOES KO ! cy).
          truthy (TETROMINOES KO ! cy ! cx) \<longrightarrow>
             0 \<le> px pos + int cx \<and> px pos + int cx < int BOARD_WIDTH \<and>
             py pos + int cy < int BOARD_HEIGHT \<and>
             (0 \<le> py pos + int cy \<longrightarrow>
                (\<forall>n. floorFull ! nat (py pos + int cy) ! nat (px pos + int cx) = Elem (Num n) \<longrightarrow> n = 0))"
  have hit: "isColliding floorFull \<lparr>px = 4, py = 18\<rparr> (TETROMINOES KO) = Inr True"
  proof -
    note t = isColliding_false_iff [OF wf, of "\<lparr>px = 4, py = 18\<rparr>" "TETROMINOES KO"]
    have "isColliding floorFull \<lparr>px = 4, py = 18\<rparr> (TETROMINOES KO) \<noteq> Inr False"
    proof
      assume "isColliding floorFull \<lparr>px = 4, py = 18\<rparr> (TETROMINOES KO) = Inr False"
      with t [THEN conjunct2] have fits: "?fits \<lparr>px = 4, py = 18\<rparr>" by (rule iffD1)
      have cell: "1 < length (TETROMINOES KO)" "0 < length (TETROMINOES KO ! 1)"
        "truthy (TETROMINOES KO ! 1 ! 0)"
        by simp_all
      from fits [rule_format, OF cell]
      have "\<forall>n. floorFull ! 19 ! 4 = Elem (Num n) \<longrightarrow> n = 0" by simp
      with full show False by simp
    qed
    with t [THEN conjunct1] show ?thesis by blast
  qed
  have above: "isColliding floorFull \<lparr>px = 4, py = 17\<rparr> (TETROMINOES KO) = Inr False"
  proof -
    note t = isColliding_false_iff [OF wf, of "\<lparr>px = 4, py = 17\<rparr>" "TETROMINOES KO"]
    have "?fits \<lparr>px = 4, py = 17\<rparr>"
      by (simp add: All_less_Suc BOARD_WIDTH_def BOARD_HEIGHT_def nat_add_distrib empty)
    with t [THEN conjunct2] show ?thesis by (rule iffD2)
  qed
  have top: "isColliding floorFull \<lparr>px = 4, py = - 1\<rparr> (TETROMINOES KO) = Inr False"
  proof -
    note t = isColliding_false_iff [OF wf, of "\<lparr>px = 4, py = - 1\<rparr>" "TETROMINOES KO"]
    have "?fits \<lparr>px = 4, py = - 1\<rparr>"
      by (simp add: All_less_Suc BOARD_WIDTH_def BOARD_HEIGHT_def empty)
    with t [THEN conjunct2] show ?thesis by (rule iffD2)
  qed
  have wall: "isColliding floorFull \<lparr>px = 9, py = 0\<rparr> (TETROMINOES KO) = Inr True"
  proof -
    note t = isColliding_false_iff [OF wf, of "\<lparr>px = 9, py = 0\<rparr>" "TETROMINOES KO"]
    have "isColliding floorFull \<lparr>px = 9, py = 0\<rparr> (TETROMINOES KO) \<noteq> Inr False"
    proof
      assume "isColliding floorFull \<lparr>px = 9, py = 0\<rparr> (TETROMINOES KO) = Inr False"
      with t [THEN conjunct2] have fits: "?fits \<lparr>px = 9, py = 0\<rparr>" by (rule iffD1)
      have cell: "0 < length (TETROMINOES KO)" "1 < length (TETROMINOES KO ! 0)"
        "truthy (TETROMINOES KO ! 0 ! 1)"
        by simp_all
      from fits [rule_format, OF cell] show False by (simp add: BOARD_WIDTH_def)
    qed
    with t [THEN conjunct1] show ?thesis by blast
  qed
  from hit above top wall show ?thesis by (intro conjI)
qed

subsection \<open>Rotation\<close>

lemma rotated_box:
  assumes "hasBox t h w" and "0 < h"
  shows "rotated t = Inr (map (\<lambda>i. rev (map (\<lambda>row. row ! i) t)) [0..<w])"
proof -
  from assms obtain r0 rs where t: "t = r0 # rs" by (cases t) (auto simp: hasBox_def)
  with assms have w: "length r0 = w" by (simp add: hasBox_def)
  have "map (\<lambda>row. elemAt row i) t = map (\<lambda>row. row ! i) t" if "i < w" for i
    using that assms(1) by (auto simp: hasBox_def elemAt_def)
  then have "map (\<lambda>i. rev (map (\<lambda>row. elemAt row i) t)) [0..<w] =
             map (\<lambda>i. rev (map (\<lambda>row. row ! i) t)) [0..<w]"
    by simp
  with t w show ?thesis by (simp add: rotated_def)
qed

lemma hasBox_rotated:
  "hasBox t h w \<Longrightarrow> hasBox (map (\<lambda>i. rev (map (\<lambda>row. row ! i) t)) [0..<w]) w h"
  by (auto simp: hasBox_def)

lemma hasBox_rev: "hasBox t h w \<Longrightarrow> hasBox (rev (map rev t)) h w"
  by (auto simp: hasBox_def)

lemma rotations_add:
  "rotations (m + n) t = (case rotations m t of Inl e \<Rightarrow> Inl e | Inr t' \<Rightarrow> rotations n t')"
  by (induction m arbitrary: t) (auto split: sum.splits)

lemma rotated_twice:
  assumes "hasBox t h w" and "0 < h" and "0 < w"
  shows "rotations 2 t = Inr (rev (map rev t))"
proof -
  let ?t1 = "map (\<lambda>i. rev (map (\<lambda>row. row ! i) t)) [0..<w]"
  let ?t2 = "map (\<lambda>j. rev (map (\<lambda>row. row ! j) ?t1)) [0..<h]"
  from assms(1) have len: "length t = h" and rows: "\<And>r. r \<in> set t \<Longrightarrow> length r = w"
    by (simp_all add: hasBox_def)
  have r1: "rotated t = Inr ?t1"
    by (rule rotated_box [OF assms(1,2)])
  have r2: "rotated ?t1 = Inr ?t2"
    by (rule rotated_box [OF hasBox_rotated [OF assms(1)] assms(3)])
  have "?t2 = rev (map rev t)"
  proof (rule nth_equalityI)
    show "length ?t2 = length (rev (map rev t))" by (simp add: len)
  next
    fix j assume "j < length ?t2"
    then have j: "j < h" by simp
    with len have idx: "h - Suc j < length t" by simp
    then have wrow: "length (t ! (h - Suc j)) = w" by (simp add: rows)
    have "map (\<lambda>row. row ! j) ?t1 = map (\<lambda>i. t ! (h - Suc j) ! i) [0..<w]"
      using j len by (simp add: rev_nth)
    also have "\<dots> = t ! (h - Suc j)"
      using wrow by (metis map_nth)
    finally have "?t2 ! j = rev (t ! (h - Suc j))"
      using j by simp
    moreover have "rev (map rev t) ! j = rev (t ! (h - Suc j))"
      using j len idx by (simp add: rev_nth)
    ultimately show "?t2 ! j = rev (map rev t) ! j" by simp
  qed
  with r1 r2 show ?thesis by (simp add: numeral_2_eq_2)
qed

lemma rotated_four_times:
  assumes "hasBox t h w" and "0 < h" and "0 < w"
  shows "rotations 4 t = Inr t"
proof -
  have "rotations (2 + 2) t = rotations 2 (rev (map rev t))"
    by (simp only: rotations_add rotated_twice [OF assms] sum.case)
  also have "\<dots> = Inr (rev (map rev (rev (map rev t))))"
    by (rule rotated_twice [OF hasBox_rev [OF assms(1)] assms(2,3)])
  also have "rev (map rev (rev (map rev t))) = t"
    by (simp add: rev_map [symmetric] comp_def)
  finally show ?thesis by simp
qed

lemma TETROMINOES_box:
  "hasBox (TETROMINOES k) (length (TETROMINOES k)) (length (hd (TETROMINOES k))) \<and>
   0 < length (TETROMINOES k) \<and> 0 < length (hd (TETROMINOES k))"
  by (cases k) (simp_all add: hasBox_def)

text \<open>The orientations of the T and of the I piece, one quarter turn after the other.\<close>

lemma rotations_T:
  "rotations 1 (TETROMINOES KT) = Inr [[Num 1, Num 0], [Num 1, Num 1], [Num 1, Num 0]] \<and>
   rotations 2 (TETROMINOES KT) = Inr [[Num 1, Num 1, Num 1], [Num 0, Num 1, Num 0]] \<and>
   rotations 3 (TETROMINOES KT) = Inr [[Num 0, Num 1], [Num 1, Num 1], [Num 0, Num 1]] \<and>
   rotations 4 (TETROMINOES KT) = Inr [[Num 0, Num 1, Num 0], [Num 1, Num 1, Num 1]]"
  by code_simp

lemma rotations_I:
  "rotations 1 (TETROMINOES KI) = Inr [[Num 1], [Num 1], [Num 1], [Num 1]] \<and>
   rotations 2 (TETROMINOES KI) = Inr [[Num 1, Num 1, Num 1, Num 1]]"
  by code_simp

text \<open>
  Claim C7. A mask with a square bounding box of at least one row comes back cell for
  cell after four applications of the transform of \<^verbatim>\<open>rotate\<close>. A mask whose box
  has \<open>h\<close> rows and \<open>w\<close> columns, both positive and different, has a box of \<open>w\<close> rows
  and \<open>h\<close> columns after one application and of \<open>h\<close> rows and \<open>w\<close> columns again
  after two. Each of the seven base masks comes back after four applications.
\<close>

theorem rotation_cycle:
  "(hasBox t n n \<and> 0 < n \<longrightarrow> rotations 4 t = Inr t) \<and>
   (hasBox u h w \<and> h \<noteq> w \<and> 0 < h \<and> 0 < w \<longrightarrow>
      (\<exists>u1 u2. rotations 1 u = Inr u1 \<and> hasBox u1 w h \<and>
                rotations 2 u = Inr u2 \<and> hasBox u2 h w)) \<and>
   (\<forall>k. rotations 4 (TETROMINOES k) = Inr (TETROMINOES k))"
proof (intro conjI impI allI)
  assume "hasBox t n n \<and> 0 < n"
  then have b: "hasBox t n n" and n: "0 < n" by simp_all
  show "rotations 4 t = Inr t" by (rule rotated_four_times [OF b n n])
next
  assume a: "hasBox u h w \<and> h \<noteq> w \<and> 0 < h \<and> 0 < w"
  then have box: "hasBox u h w" and h: "0 < h" and w: "0 < w" by simp_all
  from rotated_box [OF box h]
  have "rotations 1 u = Inr (map (\<lambda>i. rev (map (\<lambda>row. row ! i) u)) [0..<w])"
    by simp
  moreover note hasBox_rotated [OF box] rotated_twice [OF box h w] hasBox_rev [OF box]
  ultimately show "\<exists>u1 u2. rotations 1 u = Inr u1 \<and> hasBox u1 w h \<and>
                rotations 2 u = Inr u2 \<and> hasBox u2 h w"
    by blast
next
  fix k
  from TETROMINOES_box [of k]
  have "hasBox (TETROMINOES k) (length (TETROMINOES k)) (length (hd (TETROMINOES k)))"
    and "0 < length (TETROMINOES k)" and "0 < length (hd (TETROMINOES k))"
    by simp_all
  then show "rotations 4 (TETROMINOES k) = Inr (TETROMINOES k)"
    by (rule rotated_four_times)
qed

theorem rotation_cycle_witness:
  "rotations 4 (TETROMINOES KO) = Inr (TETROMINOES KO) \<and>
   rotations 1 (TETROMINOES KT) = Inr [[Num 1, Num 0], [Num 1, Num 1], [Num 1, Num 0]] \<and>
   (\<exists>u2. rotations 2 (TETROMINOES KT) = Inr u2 \<and> hasBox u2 2 3)"
proof -
  have sq: "hasBox (TETROMINOES KO) 2 2 \<and> (0::nat) < 2"
    by (simp add: hasBox_def)
  have box: "hasBox (TETROMINOES KT) 2 3 \<and> (2::nat) \<noteq> 3 \<and> (0::nat) < 2 \<and> (0::nat) < 3"
    by (simp add: hasBox_def)
  have one: "rotations 1 (TETROMINOES KT) = Inr [[Num 1, Num 0], [Num 1, Num 1], [Num 1, Num 0]]"
    by code_simp
  from rotation_cycle [of "TETROMINOES KO" 2 "TETROMINOES KT" 2 3] sq box one
  show ?thesis by blast
qed

subsection \<open>The hard-drop loop\<close>

lemma hardDropLoop_stuck:
  "moveDown snap = Inr (False, s') \<Longrightarrow> hardDropLoop snap pending = Some (Inr pending)"
  by (subst hardDropLoop.simps) simp

lemma hardDropLoop_throws:
  "moveDown snap = Inl e \<Longrightarrow> hardDropLoop snap pending = Some (Inl e)"
  by (subst hardDropLoop.simps) simp

lemma hardDropLoop_returns:
  assumes "hardDropLoop snap pending = Some r"
  shows "\<forall>s'. moveDown snap \<noteq> Inr (True, s')"
proof (rule hardDropLoop.raw_induct
    [where P = "\<lambda>snap pending r. \<forall>s'. moveDown snap \<noteq> Inr (True, s')", OF _ assms])
  fix loop :: "session \<Rightarrow> session \<Rightarrow> (error + session) option" and sn pe r'
  assume IH: "\<And>a b y. loop a b = Some y \<Longrightarrow> \<forall>s'. moveDown a \<noteq> Inr (True, s')"
    and body: "(case moveDown sn of Inl e \<Rightarrow> Some (Inl e)
               | Inr (moved, s') \<Rightarrow> if moved then loop sn s' else Some (Inr pe)) = Some r'"
  show "\<forall>s'. moveDown sn \<noteq> Inr (True, s')"
  proof (intro allI notI)
    fix s'
    assume moved: "moveDown sn = Inr (True, s')"
    with body have "loop sn s' = Some r'" by simp
    from IH [OF this] moved show False by simp
  qed
qed

text \<open>Once the piece can move down, the loop asks the same question for ever.\<close>

lemma hardDropLoop_diverges:
  assumes "moveDown snap = Inr (True, s')"
  shows "hardDropLoop snap pending = None"
proof (cases "hardDropLoop snap pending")
  case None
  then show ?thesis .
next
  case (Some r)
  from hardDropLoop_returns [OF Some] assms show ?thesis by auto
qed

lemma hardDropLoop_result:
  assumes "hardDropLoop snap pending = Some (Inr r)"
  shows "r = pending"
proof (cases "moveDown snap")
  case (Inl e)
  from hardDropLoop_throws [OF Inl, of pending] assms show ?thesis by simp
next
  case (Inr p)
  obtain moved s' where p: "p = (moved, s')" by (cases p)
  with hardDropLoop_returns [OF assms] Inr have "moveDown snap = Inr (False, s')"
    by (cases moved) auto
  from hardDropLoop_stuck [OF this, of pending] assms show ?thesis by simp
qed

subsection \<open>Paused and finished sessions\<close>

lemma tick_halted: "gameOver s \<or> isPaused s \<Longrightarrow> tick s k = Inr s"
  by (auto simp: tick_def useInterval_def)

lemma handleKeyPress_halted: "gameOver s \<or> isPaused s \<Longrightarrow> handleKeyPress e s = Some (Inr s)"
  by auto

lemma run_halted:
  "gameOver s \<or> isPaused s \<Longrightarrow> \<forall>ev \<in> set evs. isTickOrKey ev \<Longrightarrow> run evs s = Some (Inr s)"
proof (induction evs)
  case Nil
  then show ?case by simp
next
  case (Cons ev evs)
  from Cons.prems have "step ev s = Some (Inr s)"
    by (cases ev) (simp_all add: tick_halted del: handleKeyPress.simps add: handleKeyPress_halted)
  with Cons show ?case by simp
qed

subsection \<open>Pause\<close>

text \<open>
  Claim C9. In a paused session every tick and every key leaves the whole state as
  it is, also in any sequence. The pause button changes the paused flag only, and the
  tick after a resume is the gravity step on the very board and piece that were
  paused: the piece moves down one row if that is free, and is locked otherwise.
\<close>

theorem paused_frame:
  assumes "isPaused s"
  shows "(\<forall>k. tick s k = Inr s) \<and>
         (\<forall>e. handleKeyPress e s = Some (Inr s)) \<and>
         (\<forall>evs. (\<forall>ev \<in> set evs. isTickOrKey ev) \<longrightarrow> run evs s = Some (Inr s)) \<and>
         togglePause s = s\<lparr>isPaused := False\<rparr> \<and>
         (\<not> gameOver s \<longrightarrow>
            (\<forall>k. tick (togglePause s) k =
               (case isColliding (board s) ((position s)\<lparr>py := py (position s) + 1\<rparr>) (tetromino s) of
                  Inl e \<Rightarrow> Inl e
                | Inr c \<Rightarrow>
                    if c then mergeTetromino (s\<lparr>isPaused := False\<rparr>) k
                    else Inr (s\<lparr>isPaused := False,
                                position := (position s)\<lparr>py := py (position s) + 1\<rparr>\<rparr>))))"
proof -
  from assms have "tick s k = Inr s" for k
    by (simp add: tick_halted)
  moreover from assms have "handleKeyPress e s = Some (Inr s)" for e
    by simp
  moreover from assms have "run evs s = Some (Inr s)" if "\<forall>ev \<in> set evs. isTickOrKey ev" for evs
    using that by (simp add: run_halted)
  moreover from assms have "togglePause s = s\<lparr>isPaused := False\<rparr>"
    by (simp add: togglePause_def)
  moreover have "tick (togglePause s) k =
               (case isColliding (board s) ((position s)\<lparr>py := py (position s) + 1\<rparr>) (tetromino s) of
                  Inl e \<Rightarrow> Inl e
                | Inr c \<Rightarrow>
                    if c then mergeTetromino (s\<lparr>isPaused := False\<rparr>) k
                    else Inr (s\<lparr>isPaused := False,
                                position := (position s)\<lparr>py := py (position s) + 1\<rparr>\<rparr>))"
    if "\<not> gameOver s" for k
    using that assms
    by (simp add: tick_def useInterval_def tickCallback_def moveDown_def togglePause_def Let_def
        split: sum.splits)
  ultimately show ?thesis by blast
qed

theorem paused_frame_witness:
  "tick (togglePause initial) KT = Inr (togglePause initial) \<and>
   handleKeyPress ArrowLeft (togglePause initial) = Some (Inr (togglePause initial)) \<and>
   run [Tick KO, Key Space, Tick KS, Key ArrowUp] (togglePause initial) = Some (Inr (togglePause initial)) \<and>
   tick (togglePause (togglePause initial)) KT = Inr (initial\<lparr>position := \<lparr>px = 4, py = 1\<rparr>\<rparr>)"
proof -
  have p: "isPaused (togglePause initial)"
    by (simp add: togglePause_def initial_def)
  have evs: "\<forall>ev \<in> set [Tick KO, Key Space, Tick KS, Key ArrowUp]. isTickOrKey ev"
    by simp
  have over: "\<not> gameOver (togglePause initial)"
    by (simp add: togglePause_def initial_def)
  have free: "isColliding (board (togglePause initial))
                ((position (togglePause initial))\<lparr>py := py (position (togglePause initial)) + 1\<rparr>)
                (tetromino (togglePause initial)) = Inr False"
    by code_simp
  have st: "(togglePause initial)\<lparr>isPaused := False,
              position := (position (togglePause initial))\<lparr>py := py (position (togglePause initial)) + 1\<rparr>\<rparr> =
            initial\<lparr>position := \<lparr>px = 4, py = 1\<rparr>\<rparr>"
    by (simp add: togglePause_def initial_def)
  from paused_frame [OF p] evs over have
    "tick (togglePause initial) KT = Inr (togglePause initial)"
    "handleKeyPress ArrowLeft (togglePause initial) = Some (Inr (togglePause initial))"
    "run [Tick KO, Key Space, Tick KS, Key ArrowUp] (togglePause initial) = Some (Inr (togglePause initial))"
    "tick (togglePause (togglePause initial)) KT =
       (case isColliding (board (togglePause initial))
                ((position (togglePause initial))\<lparr>py := py (position (togglePause initial)) + 1\<rparr>)
                (tetromino (togglePause initial)) of
                  Inl e \<Rightarrow> Inl e
                | Inr c \<Rightarrow>
                    if c then mergeTetromino ((togglePause initial)\<lparr>isPaused := False\<rparr>) KT
                    else Inr ((togglePause initial)\<lparr>isPaused := False,
                                position := (position (togglePause initial))\<lparr>py := py (position (togglePause initial)) + 1\<rparr>\<rparr>))"
    by blast+
  then show ?thesis by (simp add: free st)
qed

subsection \<open>A piece above the top row\<close>

lemma mergeRow_above:
  "boardY < 0 \<Longrightarrow>
   mergeRow nb boardY bx cs = Inr (if \<exists>c \<in> set cs. truthy c then TopOut else Merged nb)"
  by (induction cs arbitrary: bx) auto

lemma mergeRows_above:
  "i < length rs \<Longrightarrow> boardY + int i < 0 \<Longrightarrow> \<exists>c \<in> set (rs ! i). truthy c \<Longrightarrow>
   mergeRows nb x0 boardY rs = Inr TopOut"
proof (induction rs arbitrary: i boardY)
  case Nil
  then show ?case by simp
next
  case (Cons r rs)
  from Cons.prems have neg: "boardY < 0" by linarith
  show ?case
  proof (cases "\<exists>c \<in> set r. truthy c")
    case True
    with neg show ?thesis by (simp add: mergeRow_above)
  next
    case False
    with Cons.prems obtain j where j: "i = Suc j" by (cases i) auto
    with Cons.prems have "j < length rs" "boardY + 1 + int j < 0" "\<exists>c \<in> set (rs ! j). truthy c"
      by auto
    from Cons.IH [OF this] False neg show ?thesis by (simp add: mergeRow_above)
  qed
qed

text \<open>
  Claim C3. Whenever a set cell of the piece to be locked lies on a board row below
  zero, \<^verbatim>\<open>mergeTetromino\<close> only raises the game-over flag: board, score, speed and the
  active piece stay as they were, no rows are cleared and nothing is spawned. In the
  state so reached every tick and every key is without effect, also in any sequence,
  and \<^verbatim>\<open>resetGame\<close> lowers the flag again.
\<close>

theorem topOut_sets_gameOver_only:
  assumes "cy < length (tetromino s)" and "cx < length (tetromino s ! cy)"
    and "truthy (tetromino s ! cy ! cx)" and "py (position s) + int cy < 0"
  shows "mergeTetromino s k = Inr (s\<lparr>gameOver := True\<rparr>) \<and>
         (\<forall>k' e. tick (s\<lparr>gameOver := True\<rparr>) k' = Inr (s\<lparr>gameOver := True\<rparr>) \<and>
                 handleKeyPress e (s\<lparr>gameOver := True\<rparr>) = Some (Inr (s\<lparr>gameOver := True\<rparr>))) \<and>
         (\<forall>evs. (\<forall>ev \<in> set evs. isTickOrKey ev) \<longrightarrow>
                run evs (s\<lparr>gameOver := True\<rparr>) = Some (Inr (s\<lparr>gameOver := True\<rparr>))) \<and>
         (\<forall>k'. \<not> gameOver (resetGame (s\<lparr>gameOver := True\<rparr>) k'))"
proof -
  from assms(2,3) have "\<exists>c \<in> set (tetromino s ! cy). truthy c"
    using nth_mem by blast
  from mergeRows_above [OF assms(1) assms(4) this]
  have "mergeTetromino s k = Inr (s\<lparr>gameOver := True\<rparr>)"
    by (simp add: mergeTetromino_def)
  moreover have "tick (s\<lparr>gameOver := True\<rparr>) k' = Inr (s\<lparr>gameOver := True\<rparr>)" for k'
    by (simp add: tick_halted)
  moreover have "handleKeyPress e (s\<lparr>gameOver := True\<rparr>) = Some (Inr (s\<lparr>gameOver := True\<rparr>))" for e
    by simp
  moreover have "run evs (s\<lparr>gameOver := True\<rparr>) = Some (Inr (s\<lparr>gameOver := True\<rparr>))"
    if "\<forall>ev \<in> set evs. isTickOrKey ev" for evs
    using that by (simp add: run_halted)
  moreover have "\<not> gameOver (resetGame (s\<lparr>gameOver := True\<rparr>) k')" for k'
    by (simp add: resetGame_def getRandomTetromino_def)
  ultimately show ?thesis by blast
qed

theorem topOut_sets_gameOver_only_witness:
  "mergeTetromino aboveTop KT = Inr (aboveTop\<lparr>gameOver := True\<rparr>) \<and>
   tick (aboveTop\<lparr>gameOver := True\<rparr>) KT = Inr (aboveTop\<lparr>gameOver := True\<rparr>) \<and>
   handleKeyPress Space (aboveTop\<lparr>gameOver := True\<rparr>) = Some (Inr (aboveTop\<lparr>gameOver := True\<rparr>)) \<and>
   run [Tick KO, Key ArrowLeft] (aboveTop\<lparr>gameOver := True\<rparr>) = Some (Inr (aboveTop\<lparr>gameOver := True\<rparr>))"
proof -
  have 1: "0 < length (tetromino aboveTop)" and 2: "0 < length (tetromino aboveTop ! 0)"
    and 3: "truthy (tetromino aboveTop ! 0 ! 0)" and 4: "py (position aboveTop) + int 0 < 0"
    by (simp_all add: aboveTop_def initial_def)
  have 5: "\<forall>ev \<in> set [Tick KO, Key ArrowLeft]. isTickOrKey ev" by simp
  from topOut_sets_gameOver_only [OF 1 2 3 4, of KT] 5 show ?thesis by blast
qed

subsection \<open>Reset\<close>

text \<open>
  Claim C5, as the code has it. From every state \<^verbatim>\<open>resetGame\<close> yields the empty
  board, the score 0, the initial tick interval, a lowered game-over flag and a new
  piece in its base orientation at (4, 0); the paused flag keeps the value it had.
\<close>

theorem resetGame_fields:
  "resetGame s k = \<lparr> board = createEmptyBoard, position = \<lparr> px = 4, py = 0 \<rparr>,
       tetromino = TETROMINOES k, tetrominoType = k, score = Points 0,
       gameOver = False, isPaused = isPaused s, speed = INITIAL_SPEED \<rparr>"
  by (cases s) (simp add: resetGame_def getRandomTetromino_def)

text \<open>Resetting a paused session leaves it paused.\<close>

theorem resetGame_keeps_paused:
  "isPaused (resetGame (togglePause initial) KI)"
  by (simp add: resetGame_def togglePause_def initial_def getRandomTetromino_def)

subsection \<open>Boards keep their size\<close>

lemma wf_createEmptyBoard: "wf_board createEmptyBoard"
  by (simp add: wf_board_def createEmptyBoard_def)

lemma wf_copy: "wf_board b \<Longrightarrow> wf_board (map copyRow b)"
  by (auto simp: wf_board_def copyRow_def)

lemma length_assignAt: "0 \<le> i \<Longrightarrow> nat i < length r \<Longrightarrow> length (assignAt r i v) = length r"
  by (simp add: assignAt_def)

lemma wf_update:
  assumes "wf_board nb" and "length r = BOARD_WIDTH"
  shows "wf_board (nb[i := r])"
  using assms by (auto simp: wf_board_def dest!: set_update_subset_insert [THEN subsetD])

lemma mergeRow_onGrid:
  assumes "wf_board nb" and "0 \<le> boardY" and "boardY < int BOARD_HEIGHT"
    and "\<forall>i<length cs. truthy (cs ! i) \<longrightarrow> 0 \<le> bx + int i \<and> bx + int i < int BOARD_WIDTH"
  shows "\<exists>nb'. mergeRow nb boardY bx cs = Inr (Merged nb') \<and> wf_board nb'"
  using assms
proof (induction cs arbitrary: nb bx)
  case Nil
  then show ?case by simp
next
  case (Cons c cs)
  have tl: "\<forall>i<length cs. truthy (cs ! i) \<longrightarrow> 0 \<le> bx + 1 + int i \<and> bx + 1 + int i < int BOARD_WIDTH"
  proof (intro allI impI)
    fix i assume "i < length cs" "truthy (cs ! i)"
    with Cons.prems(4) [rule_format, of "Suc i"] show "0 \<le> bx + 1 + int i \<and> bx + 1 + int i < int BOARD_WIDTH"
      by simp
  qed
  show ?case
  proof (cases "truthy c")
    case False
    with Cons.IH [OF Cons.prems(1-3) tl] show ?thesis by simp
  next
    case True
    with Cons.prems(4) [rule_format, of 0] have bx: "0 \<le> bx" "bx < int BOARD_WIDTH" by simp_all
    from Cons.prems(1-3) have row: "nat boardY < length nb" "length (nb ! nat boardY) = BOARD_WIDTH"
      by (auto simp: wf_board_def)
    with bx have "length (assignAt (nb ! nat boardY) bx (Elem (Num 1))) = BOARD_WIDTH"
      by (simp add: length_assignAt)
    from wf_update [OF Cons.prems(1) this]
    have "wf_board (nb[nat boardY := assignAt (nb ! nat boardY) bx (Elem (Num 1))])" .
    from Cons.IH [OF this Cons.prems(2,3) tl] True Cons.prems(2) row show ?thesis
      by (simp add: rowAt_def)
  qed
qed

lemma mergeRows_onGrid:
  assumes "wf_board nb" and "0 \<le> boardY"
    and "\<forall>j<length rs. \<forall>i<length (rs ! j). truthy (rs ! j ! i) \<longrightarrow>
           0 \<le> x0 + int i \<and> x0 + int i < int BOARD_WIDTH \<and> boardY + int j < int BOARD_HEIGHT"
  shows "\<exists>nb'. mergeRows nb x0 boardY rs = Inr (Merged nb') \<and> wf_board nb'"
  using assms
proof (induction rs arbitrary: nb boardY)
  case Nil
  then show ?case by simp
next
  case (Cons r rs)
  have tl: "\<forall>j<length rs. \<forall>i<length (rs ! j). truthy (rs ! j ! i) \<longrightarrow>
           0 \<le> x0 + int i \<and> x0 + int i < int BOARD_WIDTH \<and> boardY + 1 + int j < int BOARD_HEIGHT"
  proof (intro allI impI)
    fix j i assume "j < length rs" "i < length (rs ! j)" "truthy (rs ! j ! i)"
    with Cons.prems(3) [rule_format, of "Suc j" i]
    show "0 \<le> x0 + int i \<and> x0 + int i < int BOARD_WIDTH \<and> boardY + 1 + int j < int BOARD_HEIGHT"
      by simp
  qed
  have hd: "\<exists>nb'. mergeRow nb boardY x0 r = Inr (Merged nb') \<and> wf_board nb'"
  proof (cases "\<exists>c \<in> set r. truthy c")
    case True
    then obtain i where i: "i < length r" "truthy (r ! i)"
      by (auto simp: in_set_conv_nth)
    with Cons.prems(3) [rule_format, of 0 i] have low: "boardY < int BOARD_HEIGHT" by simp
    have "\<forall>i<length r. truthy (r ! i) \<longrightarrow> 0 \<le> x0 + int i \<and> x0 + int i < int BOARD_WIDTH"
      using Cons.prems(3) [rule_format, of 0] by simp
    from mergeRow_onGrid [OF Cons.prems(1,2) low this] show ?thesis .
  next
    case False
    have "mergeRow nb' y' x' r = Inr (Merged nb')" for nb' y' x'
      using False by (induction r arbitrary: x') auto
    with Cons.prems(1) show ?thesis by simp
  qed
  then obtain nb1 where nb1: "mergeRow nb boardY x0 r = Inr (Merged nb1)" "wf_board nb1"
    by blast
  from Cons.prems(2) have "0 \<le> boardY + 1" by simp
  from Cons.IH [OF nb1(2) this tl] nb1(1) show ?case by simp
qed

lemma not_everyCell_emptyRow: "\<not> everyCell emptyRow"
  by (simp add: everyCell_def emptyRow_def BOARD_WIDTH_def list_all_iff)

lemma length_emptyRow: "length emptyRow = BOARD_WIDTH"
  by (simp add: emptyRow_def)

lemma clearLines_wf:
  assumes "n \<le> length nb" and "length nb = BOARD_HEIGHT" and "\<forall>r \<in> set nb. length r = BOARD_WIDTH"
  shows "\<exists>nb' c'. clearLines n nb c = Inr (nb', c') \<and> wf_board nb'"
  using assms
proof (induction n arbitrary: nb c)
  case 0
  then show ?case by (simp add: wf_board_def)
next
  case (Suc y)
  from Suc.prems have y: "y < length nb" by simp
  show ?case
  proof (cases "everyCell (nb ! y)")
    case False
    with Suc.IH [of nb c] Suc.prems y show ?thesis by (simp add: rowAt_def)
  next
    case True
    let ?nb = "emptyRow # (take y nb @ drop (Suc y) nb)"
    from y Suc.prems have len: "length ?nb = BOARD_HEIGHT" by simp
    have rows: "\<forall>r \<in> set ?nb. length r = BOARD_WIDTH"
      using Suc.prems(3) by (auto simp: length_emptyRow dest: in_set_takeD in_set_dropD)
    from len y Suc.prems have "y \<le> length ?nb" by simp
    from Suc.IH [OF this len rows, of "c + 1"] True y show ?thesis by (simp add: rowAt_def)
  qed
qed

subsection \<open>Clearing lines\<close>

text \<open>Without holes, the test of the clearing loop says that every cell is occupied.\<close>

lemma everyCell_occupied:
  "Hole \<notin> set r \<Longrightarrow> everyCell r = (\<forall>sl \<in> set r. truthy (readSlot sl))"
  by (induction r) (auto simp: everyCell_def split: slot.splits)

lemma clearLines_none:
  "n \<le> length nb \<Longrightarrow> \<forall>i<n. \<not> everyCell (nb ! i) \<Longrightarrow> clearLines n nb c = Inr (nb, c)"
  by (induction n) (simp_all add: rowAt_def)

lemma clearLines_one:
  assumes "r < n" and "n \<le> length nb" and "everyCell (nb ! r)"
    and "\<forall>i<n. i \<noteq> r \<longrightarrow> \<not> everyCell (nb ! i)"
  shows "clearLines n nb c = Inr (emptyRow # (take r nb @ drop (Suc r) nb), c + 1)"
  using assms
proof (induction n)
  case 0
  then show ?case by simp
next
  case (Suc y)
  show ?case
  proof (cases "y = r")
    case True
    let ?nb = "emptyRow # (take r nb @ drop (Suc r) nb)"
    from Suc.prems True have len: "r \<le> length ?nb" by simp
    have "\<forall>i<r. \<not> everyCell (?nb ! i)"
    proof (intro allI impI)
      fix i assume i: "i < r"
      show "\<not> everyCell (?nb ! i)"
      proof (cases i)
        case 0
        then show ?thesis by (simp add: not_everyCell_emptyRow)
      next
        case (Suc j)
        with i Suc.prems True have "j < r" "j < length nb" "j < Suc y" by simp_all
        with Suc.prems(4) have "\<not> everyCell (nb ! j)" by auto
        with Suc \<open>j < r\<close> \<open>j < length nb\<close> show ?thesis by (simp add: nth_append)
      qed
    qed
    from clearLines_none [OF len this, of "c + 1"] True Suc.prems show ?thesis
      by (simp add: rowAt_def)
  next
    case False
    with Suc.prems have ry: "r < y" and "y \<le> length nb" and "\<not> everyCell (nb ! y)"
      and "\<forall>i<y. i \<noteq> r \<longrightarrow> \<not> everyCell (nb ! i)"
      by auto
    with Suc.IH [OF ry] Suc.prems show ?thesis by (simp add: rowAt_def)
  qed
qed

text \<open>
  Claim C8. On a board of twenty rows of which exactly one, row \<open>r\<close>, passes the
  fullness test of the clearing loop, the loop counts one row and leaves the board
  with row \<open>r\<close> taken out and an empty row of ten cells put at index 0: the rows that
  were above row \<open>r\<close> are one index further down, the rows below it are where they were.
\<close>

theorem clearLines_single_full_row:
  assumes "length b = BOARD_HEIGHT" and "r < BOARD_HEIGHT" and "everyCell (b ! r)"
    and "\<forall>i<BOARD_HEIGHT. i \<noteq> r \<longrightarrow> \<not> everyCell (b ! i)"
  shows "\<exists>b'. clearLines BOARD_HEIGHT b 0 = Inr (b', 1) \<and>
              b' = emptyRow # (take r b @ drop (Suc r) b) \<and>
              length b' = BOARD_HEIGHT \<and>
              b' ! 0 = replicate BOARD_WIDTH (Elem (Num 0)) \<and>
              (\<forall>i<r. b' ! Suc i = b ! i) \<and>
              (\<forall>i. r < i \<and> i < BOARD_HEIGHT \<longrightarrow> b' ! i = b ! i)"
proof -
  let ?b = "emptyRow # (take r b @ drop (Suc r) b)"
  from assms(1) have "BOARD_HEIGHT \<le> length b" by simp
  from clearLines_one [OF assms(2) this assms(3,4), of 0]
  have "clearLines BOARD_HEIGHT b 0 = Inr (?b, 1)" by simp
  moreover from assms(1,2) have "length ?b = BOARD_HEIGHT" by simp
  moreover have "?b ! 0 = replicate BOARD_WIDTH (Elem (Num 0))"
    by (simp add: emptyRow_def)
  moreover from assms(1,2) have "\<forall>i<r. ?b ! Suc i = b ! i"
    by (simp add: nth_append)
  moreover have "\<forall>i. r < i \<and> i < BOARD_HEIGHT \<longrightarrow> ?b ! i = b ! i"
  proof (intro allI impI)
    fix i assume i: "r < i \<and> i < BOARD_HEIGHT"
    then obtain j where j: "i = Suc j" "r \<le> j" by (cases i) auto
    with i assms(1,2) show "?b ! i = b ! i"
      by (simp add: nth_append min_def)
  qed
  ultimately show ?thesis by blast
qed

theorem clearLines_single_full_row_witness:
  "clearLines BOARD_HEIGHT oneFullRow 0 =
     Inr (replicate 11 emptyRow @ [pairRow, gapRow] @ replicate 7 emptyRow, 1)"
proof -
  have 1: "length oneFullRow = BOARD_HEIGHT"
    by (simp add: oneFullRow_def BOARD_HEIGHT_def)
  have 2: "11 < BOARD_HEIGHT"
    by (simp add: BOARD_HEIGHT_def)
  have 3: "everyCell (oneFullRow ! 11)"
    by code_simp
  have "list_all (\<lambda>i. i \<noteq> 11 \<longrightarrow> \<not> everyCell (oneFullRow ! i)) [0..<BOARD_HEIGHT]"
    by code_simp
  then have 4: "\<forall>i<BOARD_HEIGHT. i \<noteq> 11 \<longrightarrow> \<not> everyCell (oneFullRow ! i)"
    by (simp add: list_all_iff)
  have "emptyRow # (take 11 oneFullRow @ drop (Suc 11) oneFullRow) =
        replicate 11 emptyRow @ [pairRow, gapRow] @ replicate 7 emptyRow"
    by code_simp
  with clearLines_single_full_row [OF 1 2 3 4] show ?thesis by auto
qed

subsection \<open>Two adjacent full rows\<close>

lemma reachable_run:
  "reachable s \<Longrightarrow> run evs s = Some (Inr s') \<Longrightarrow> reachable s'"
proof (induction evs arbitrary: s)
  case Nil
  then show ?case by simp
next
  case (Cons ev evs)
  from Cons.prems(2) obtain s1 where s1: "step ev s = Some (Inr s1)" "run evs s1 = Some (Inr s')"
    by (auto split: option.splits sum.splits)
  from reachable_step [OF Cons.prems(1) s1(1)] have "reachable s1" .
  from Cons.IH [OF this s1(2)] show ?case .
qed

lemma twoGapRows_played: "run twoGapRowsGame initial = Some (Inr twoGapRows)"
  by code_simp

lemma reachable_twoGapRows: "reachable twoGapRows"
  by (rule reachable_run [OF reachable_initial twoGapRows_played])

text \<open>
  Claim C1 at the state \<open>twoGapRows\<close>, which a game reaches. The O piece cannot
  move down, so the tick locks it, and the lock completes rows 18 and 19 at once. The
  clearing loop removes row 19, which moves the other full row to index 19, and goes
  on to index 18: one row is counted, 100 points are added where two rows call for
  300, and a full row stays on the bottom of the board.
\<close>

theorem adjacent_full_rows_cleared_once:
  "reachable twoGapRows \<and>
   moveDown twoGapRows = Inr (False, twoGapRows) \<and>
   mergeRows (map copyRow (board twoGapRows)) 4 18 (tetromino twoGapRows) =
     Inr (Merged (replicate 18 emptyRow @ [fullRow, fullRow])) \<and>
   everyCell fullRow \<and>
   clearLines BOARD_HEIGHT (replicate 18 emptyRow @ [fullRow, fullRow]) 0 =
     Inr (replicate 19 emptyRow @ [fullRow], 1) \<and>
   tickCallback twoGapRows KT =
     Inr (twoGapRows\<lparr> board := replicate 19 emptyRow @ [fullRow],
                       score := Points 100,
                       speed := 790,
                       tetromino := TETROMINOES KT,
                       tetrominoType := KT,
                       position := \<lparr>px = 4, py = 0\<rparr> \<rparr>)"
proof -
  have "moveDown twoGapRows = Inr (False, twoGapRows) \<and>
   mergeRows (map copyRow (board twoGapRows)) 4 18 (tetromino twoGapRows) =
     Inr (Merged (replicate 18 emptyRow @ [fullRow, fullRow])) \<and>
   everyCell fullRow \<and>
   clearLines BOARD_HEIGHT (replicate 18 emptyRow @ [fullRow, fullRow]) 0 =
     Inr (replicate 19 emptyRow @ [fullRow], 1) \<and>
   tickCallback twoGapRows KT =
     Inr (twoGapRows\<lparr> board := replicate 19 emptyRow @ [fullRow],
                       score := Points 100,
                       speed := 790,
                       tetromino := TETROMINOES KT,
                       tetrominoType := KT,
                       position := \<lparr>px = 4, py = 0\<rparr> \<rparr>)"
    by code_simp
  with reachable_twoGapRows show ?thesis by (rule conjI)
qed

text \<open>Of four adjacent full rows the loop removes the first and the third it meets.\<close>

lemma four_full_rows_cleared_twice:
  "clearLines BOARD_HEIGHT (replicate 16 emptyRow @ replicate 4 fullRow) 0 =
     Inr (replicate 18 emptyRow @ replicate 2 fullRow, 2) \<and>
   pointsFor 2 = Some 300 \<and> pointsFor 4 = Some 800"
  by code_simp

subsection \<open>Hard drop\<close>

text \<open>In a running session the hard drop returns exactly when the piece cannot move down.\<close>

lemma hardDrop_hangs_iff:
  assumes "\<not> gameOver s" and "\<not> isPaused s"
  shows "(handleKeyPress Space s = None) = (\<exists>s'. moveDown s = Inr (True, s'))"
proof
  assume "\<exists>s'. moveDown s = Inr (True, s')"
  then obtain s' where "moveDown s = Inr (True, s')" ..
  from hardDropLoop_diverges [OF this, of s] assms show "handleKeyPress Space s = None"
    by simp
next
  assume "handleKeyPress Space s = None"
  with assms have none: "hardDropLoop s s = None" by simp
  show "\<exists>s'. moveDown s = Inr (True, s')"
  proof (cases "moveDown s")
    case (Inl e)
    from hardDropLoop_throws [OF this, of s] none show ?thesis by simp
  next
    case (Inr p)
    obtain moved s' where p: "p = (moved, s')" by (cases p)
    show ?thesis
    proof (cases moved)
      case True
      with Inr p have "moveDown s = Inr (True, s')" by simp
      then show ?thesis ..
    next
      case False
      with Inr p have "moveDown s = Inr (False, s')" by simp
      from hardDropLoop_stuck [OF this, of s] none show ?thesis by simp
    qed
  qed
qed

lemma reachable_spawnedO: "reachable spawnedO"
proof -
  have "step (ResetClick KO) initial = Some (Inr spawnedO)"
    by code_simp
  from reachable_step [OF reachable_initial this] show ?thesis .
qed

text \<open>
  Claim C2 at the state \<open>spawnedO\<close>, its own scenario: the empty board with an O
  piece at origin (4, 0), reached by a reset that draws an O. The row below the piece
  is free, so \<^verbatim>\<open>moveDown\<close> queues the origin (4, 1) and answers true, and it does
  so again at each round of \<^verbatim>\<open>while (moveDown()) {}\<close>, since it tests the origin
  of its render. The handler never returns: the piece is neither brought down nor
  locked, no row is looked at and no piece is spawned.
\<close>

theorem hardDrop_never_returns:
  "reachable spawnedO \<and>
   board spawnedO = createEmptyBoard \<and>
   position spawnedO = \<lparr>px = 4, py = 0\<rparr> \<and>
   tetromino spawnedO = TETROMINOES KO \<and>
   moveDown spawnedO = Inr (True, spawnedO\<lparr>position := \<lparr>px = 4, py = 1\<rparr>\<rparr>) \<and>
   handleKeyPress Space spawnedO = None"
proof -
  have state: "board spawnedO = createEmptyBoard" "position spawnedO = \<lparr>px = 4, py = 0\<rparr>"
    "tetromino spawnedO = TETROMINOES KO" "\<not> gameOver spawnedO" "\<not> isPaused spawnedO"
    by (simp_all add: spawnedO_def initial_def)
  have moves: "moveDown spawnedO = Inr (True, spawnedO\<lparr>position := \<lparr>px = 4, py = 1\<rparr>\<rparr>)"
    by code_simp
  from hardDropLoop_diverges [OF moves] have "hardDropLoop spawnedO spawnedO = None" .
  with state(4,5) have "handleKeyPress Space spawnedO = None" by simp
  with reachable_spawnedO state(1-3) moves show ?thesis by (intro conjI)
qed

text \<open>
  Where the piece cannot move down the loop ends at once and the handler leaves the
  state as it was: the Space branch has no call of \<^verbatim>\<open>mergeTetromino\<close>, which only
  the timer callback makes.
\<close>

lemma hardDrop_at_rest:
  assumes "moveDown s = Inr (False, s')"
  shows "handleKeyPress Space s = Some (Inr s) \<and> (\<forall>k. tickCallback s k = mergeTetromino s k)"
proof -
  from hardDropLoop_stuck [OF assms] have "hardDropLoop s s = Some (Inr s)" .
  then have "handleKeyPress Space s = Some (Inr s)" by simp
  moreover from assms have "tickCallback s k = mergeTetromino s k" for k
    by (simp add: tickCallback_def)
  ultimately show ?thesis by simp
qed

text \<open>
  The O piece resting on the floor of the empty board: the hard drop changes nothing,
  the board is still empty and the piece still the active one at (4, 18); it is the
  next tick that locks it with its lower left cell at (4, 19) and spawns a piece.
\<close>

lemma hardDrop_at_rest_restingO:
  "handleKeyPress Space restingO = Some (Inr restingO) \<and>
   board restingO = createEmptyBoard \<and>
   position restingO = \<lparr>px = 4, py = 18\<rparr> \<and>
   tickCallback restingO KT =
     Inr (restingO\<lparr> board := replicate 18 emptyRow @ [pairRow, pairRow],
                     tetromino := TETROMINOES KT,
                     tetrominoType := KT,
                     position := \<lparr>px = 4, py = 0\<rparr> \<rparr>) \<and>
   score restingO = Points 0"
proof -
  have stuck: "moveDown restingO = Inr (False, restingO)"
    by code_simp
  have lock: "mergeTetromino restingO KT =
     Inr (restingO\<lparr> board := replicate 18 emptyRow @ [pairRow, pairRow],
                     tetromino := TETROMINOES KT,
                     tetrominoType := KT,
                     position := \<lparr>px = 4, py = 0\<rparr> \<rparr>)"
    by code_simp
  have "score restingO = Points 0" "board restingO = createEmptyBoard"
    "position restingO = \<lparr>px = 4, py = 18\<rparr>"
    by (simp_all add: restingO_def initial_def)
  with hardDrop_at_rest [OF stuck] lock show ?thesis by simp
qed

subsection \<open>The invariant of a run\<close>

lemma free_inGrid:
  assumes "length b = BOARD_HEIGHT" and "isColliding b pos shape = Inr False" and "0 \<le> py pos"
  shows "inGrid pos shape"
proof -
  from assms(2) isColliding_eq [OF assms(1), of pos shape]
  have "\<forall>cy<length shape. \<forall>cx<length (shape ! cy).
          truthy (shape ! cy ! cx) \<longrightarrow> cellFree b (px pos + int cx) (py pos + int cy)"
    by simp
  with assms(3) show ?thesis
    by (simp add: inGrid_def cellFree_def)
qed

lemma inGrid_spawn: "inGrid \<lparr>px = 4, py = 0\<rparr> (TETROMINOES k)"
  by (cases k) (simp_all add: inGrid_def All_less_Suc BOARD_WIDTH_def BOARD_HEIGHT_def)

lemma invariant_initial: "invariant initial"
  using inGrid_spawn [of KI]
  by (simp add: invariant_def initial_def wf_createEmptyBoard)

lemma mergeRows_no_topOut:
  assumes "invariant s"
  shows "\<exists>nb. mergeRows (map copyRow (board s)) (px (position s)) (py (position s)) (tetromino s) =
               Inr (Merged nb) \<and> wf_board nb"
proof -
  from assms have wf: "wf_board (map copyRow (board s))" and y: "0 \<le> py (position s)"
    by (simp_all add: invariant_def wf_copy)
  from assms have "\<forall>j<length (tetromino s). \<forall>i<length (tetromino s ! j).
      truthy (tetromino s ! j ! i) \<longrightarrow>
        0 \<le> px (position s) + int i \<and> px (position s) + int i < int BOARD_WIDTH \<and>
        py (position s) + int j < int BOARD_HEIGHT"
    by (simp add: invariant_def inGrid_def)
  from mergeRows_onGrid [OF wf y this] show ?thesis .
qed

lemma mergeTetromino_invariant:
  assumes "invariant s"
  shows "\<exists>s'. mergeTetromino s k = Inr s' \<and> invariant s'"
proof -
  from mergeRows_no_topOut [OF assms] obtain nb where
    nb: "mergeRows (map copyRow (board s)) (px (position s)) (py (position s)) (tetromino s) =
           Inr (Merged nb)" "wf_board nb"
    by blast
  from nb(2) have "BOARD_HEIGHT \<le> length nb" "length nb = BOARD_HEIGHT"
    "\<forall>r \<in> set nb. length r = BOARD_WIDTH"
    by (simp_all add: wf_board_def)
  from clearLines_wf [OF this, of 0] obtain nb' c' where
    cl: "clearLines BOARD_HEIGHT nb 0 = Inr (nb', c')" "wf_board nb'"
    by blast
  from assms have "\<not> gameOver s" by (simp add: invariant_def)
  with nb(1) cl inGrid_spawn [of k] show ?thesis
    by (simp add: mergeTetromino_def getRandomTetromino_def invariant_def)
qed

lemma moveDown_invariant:
  assumes "invariant s" and "moveDown s = Inr (moved, s')"
  shows "invariant s'"
proof (cases "isColliding (board s) ((position s)\<lparr>py := py (position s) + 1\<rparr>) (tetromino s)")
  case (Inl e)
  with assms(2) show ?thesis by (simp add: moveDown_def)
next
  case (Inr c)
  show ?thesis
  proof (cases c)
    case True
    with Inr assms show ?thesis by (simp add: moveDown_def)
  next
    case False
    from assms(1) have len: "length (board s) = BOARD_HEIGHT" and y: "0 \<le> py (position s)"
      by (simp_all add: invariant_def wf_board_def)
    from False Inr have "isColliding (board s) ((position s)\<lparr>py := py (position s) + 1\<rparr>) (tetromino s) = Inr False"
      by simp
    from free_inGrid [OF len this] y
    have "inGrid ((position s)\<lparr>py := py (position s) + 1\<rparr>) (tetromino s)" by simp
    with False Inr assms y show ?thesis
      by (auto simp: moveDown_def invariant_def)
  qed
qed

lemma moveHorizontal_invariant:
  assumes "invariant s" and "moveHorizontal delta s = Inr s'"
  shows "invariant s'"
proof (cases "isColliding (board s) ((position s)\<lparr>px := px (position s) + delta\<rparr>) (tetromino s)")
  case (Inl e)
  with assms(2) show ?thesis by (simp add: moveHorizontal_def)
next
  case (Inr c)
  show ?thesis
  proof (cases c)
    case True
    with Inr assms show ?thesis by (simp add: moveHorizontal_def)
  next
    case False
    from assms(1) have len: "length (board s) = BOARD_HEIGHT" and y: "0 \<le> py (position s)"
      by (simp_all add: invariant_def wf_board_def)
    from False Inr have "isColliding (board s) ((position s)\<lparr>px := px (position s) + delta\<rparr>) (tetromino s) = Inr False"
      by simp
    from free_inGrid [OF len this] y
    have "inGrid ((position s)\<lparr>px := px (position s) + delta\<rparr>) (tetromino s)" by simp
    with False Inr assms y show ?thesis
      by (auto simp: moveHorizontal_def invariant_def)
  qed
qed

lemma rotate_invariant:
  assumes "invariant s" and "rotate s = Inr s'"
  shows "invariant s'"
proof (cases "rotated (tetromino s)")
  case (Inl e)
  with assms(2) show ?thesis by (simp add: rotate_def)
next
  case rot: (Inr rot)
  show ?thesis
  proof (cases "isColliding (board s) (position s) rot")
    case (Inl e)
    with rot assms(2) show ?thesis by (simp add: rotate_def)
  next
    case (Inr c)
    show ?thesis
    proof (cases c)
      case True
      with Inr rot assms show ?thesis by (simp add: rotate_def)
    next
      case False
      from assms(1) have len: "length (board s) = BOARD_HEIGHT" and y: "0 \<le> py (position s)"
        by (simp_all add: invariant_def wf_board_def)
      from False Inr have "isColliding (board s) (position s) rot = Inr False"
        by simp
      from free_inGrid [OF len this y] have "inGrid (position s) rot" .
      with False Inr rot assms y show ?thesis
        by (auto simp: rotate_def invariant_def)
    qed
  qed
qed

lemma tick_invariant:
  assumes "invariant s" and "tick s k = Inr s'"
  shows "invariant s'"
proof (cases "\<not> gameOver s \<and> \<not> isPaused s")
  case False
  with assms show ?thesis by (auto simp: tick_def useInterval_def)
next
  case True
  with assms(2) have cb: "tickCallback s k = Inr s'"
    by (simp add: tick_def useInterval_def)
  show ?thesis
  proof (cases "moveDown s")
    case (Inl e)
    with cb show ?thesis by (simp add: tickCallback_def)
  next
    case (Inr p)
    obtain moved s1 where p: "p = (moved, s1)" by (cases p)
    show ?thesis
    proof (cases moved)
      case True
      with Inr p cb have "s' = s1" by (simp add: tickCallback_def)
      with moveDown_invariant [OF assms(1)] Inr p show ?thesis by simp
    next
      case False
      with Inr p cb have "mergeTetromino s k = Inr s'" by (simp add: tickCallback_def)
      with mergeTetromino_invariant [OF assms(1), of k] show ?thesis by auto
    qed
  qed
qed

lemma handleKeyPress_invariant:
  assumes "invariant s" and "handleKeyPress e s = Some (Inr s')"
  shows "invariant s'"
proof (cases "gameOver s \<or> isPaused s")
  case True
  from handleKeyPress_halted [OF True, of e] assms show ?thesis by simp
next
  case False
  show ?thesis
  proof (cases e)
    case ArrowLeft
    with False assms(2) have "moveHorizontal (- 1) s = Inr s'" by simp
    from moveHorizontal_invariant [OF assms(1) this] show ?thesis .
  next
    case ArrowRight
    with False assms(2) have "moveHorizontal 1 s = Inr s'" by simp
    from moveHorizontal_invariant [OF assms(1) this] show ?thesis .
  next
    case ArrowDown
    with False assms(2) have "map_sum id snd (moveDown s) = Inr s'" by simp
    then obtain moved where "moveDown s = Inr (moved, s')"
    proof (cases "moveDown s")
      case (Inl err)
      with \<open>map_sum id snd (moveDown s) = Inr s'\<close> show ?thesis by simp
    next
      case (Inr p)
      with \<open>map_sum id snd (moveDown s) = Inr s'\<close> have "p = (fst p, s')"
        by (cases p) simp
      with Inr that show ?thesis by metis
    qed
    from moveDown_invariant [OF assms(1) this] show ?thesis .
  next
    case ArrowUp
    with False assms(2) have "rotate s = Inr s'" by simp
    from rotate_invariant [OF assms(1) this] show ?thesis .
  next
    case Space
    with False assms(2) have "hardDropLoop s s = Some (Inr s')" by simp
    from hardDropLoop_result [OF this] assms(1) show ?thesis by simp
  next
    case OtherKey
    with False assms show ?thesis by simp
  qed
qed

lemma resetGame_invariant: "invariant (resetGame s k)"
  using inGrid_spawn [of k]
  by (simp add: resetGame_def getRandomTetromino_def invariant_def wf_createEmptyBoard)

lemma step_invariant:
  assumes "invariant s" and "step ev s = Some (Inr s')"
  shows "invariant s'"
proof (cases ev)
  case (Tick k)
  with assms(2) have "tick s k = Inr s'" by simp
  from tick_invariant [OF assms(1) this] show ?thesis .
next
  case (Key e)
  with assms(2) have "handleKeyPress e s = Some (Inr s')" by simp
  from handleKeyPress_invariant [OF assms(1) this] show ?thesis .
next
  case PauseClick
  with assms show ?thesis by (auto simp: togglePause_def invariant_def)
next
  case (ResetClick k)
  with assms(2) resetGame_invariant [of s k] show ?thesis by auto
qed

lemma reachable_invariant: "reachable s \<Longrightarrow> invariant s"
  by (induction rule: reachable.induct) (auto intro: invariant_initial step_invariant)

text \<open>
  Claim C4. In every state that a run reaches from the initial one, the origin of the
  active piece is on row 0 or below it, so no set cell of the piece lies on a row
  below zero; the game-over flag is down, and locking the piece in that state never
  takes the top-out branch: it returns a state whose flag is still down.
\<close>

theorem origin_never_above_top:
  assumes "reachable s"
  shows "0 \<le> py (position s) \<and>
         (\<forall>cy<length (tetromino s). \<forall>cx<length (tetromino s ! cy).
             truthy (tetromino s ! cy ! cx) \<longrightarrow> 0 \<le> py (position s) + int cy) \<and>
         \<not> gameOver s \<and>
         (\<forall>k. \<exists>s'. mergeTetromino s k = Inr s' \<and> \<not> gameOver s')"
proof -
  from reachable_invariant [OF assms] have inv: "invariant s" .
  then have "0 \<le> py (position s)" and "\<not> gameOver s"
    by (simp_all add: invariant_def)
  moreover from inv have "\<forall>cy<length (tetromino s). \<forall>cx<length (tetromino s ! cy).
             truthy (tetromino s ! cy ! cx) \<longrightarrow> 0 \<le> py (position s) + int cy"
    by (simp add: invariant_def inGrid_def)
  moreover have "\<exists>s'. mergeTetromino s k = Inr s' \<and> \<not> gameOver s'" for k
    using mergeTetromino_invariant [OF inv, of k] by (auto simp: invariant_def)
  ultimately show ?thesis by blast
qed

theorem origin_never_above_top_witness:
  "0 \<le> py (position (initial\<lparr>position := \<lparr>px = 4, py = 1\<rparr>\<rparr>)) \<and>
   \<not> gameOver (initial\<lparr>position := \<lparr>px = 4, py = 1\<rparr>\<rparr>) \<and>
   (\<exists>s'. mergeTetromino (initial\<lparr>position := \<lparr>px = 4, py = 1\<rparr>\<rparr>) KO = Inr s' \<and> \<not> gameOver s')"
proof -
  have "step (Tick KT) initial = Some (Inr (initial\<lparr>position := \<lparr>px = 4, py = 1\<rparr>\<rparr>))"
    by code_simp
  from reachable_step [OF reachable_initial this]
  have "reachable (initial\<lparr>position := \<lparr>px = 4, py = 1\<rparr>\<rparr>)" .
  from origin_never_above_top [OF this] show ?thesis by blast
qed

text \<open>
  Claim C10. In every state that a run reaches the board has twenty rows of ten slots
  and every set cell of the active piece lies on a column from 0 to 9 and on a row
  from 0 to 19. The writes of \<^verbatim>\<open>mergeTetromino\<close> go to exactly these cells, so
  the merge throws nothing, takes no row beyond its ten slots, and hands on a board
  of the same size, before and after the clearing loop.
\<close>

theorem merge_stays_on_grid:
  assumes "reachable s"
  shows "wf_board (board s) \<and>
         (\<forall>cy<length (tetromino s). \<forall>cx<length (tetromino s ! cy).
             truthy (tetromino s ! cy ! cx) \<longrightarrow>
               0 \<le> px (position s) + int cx \<and> px (position s) + int cx < int BOARD_WIDTH \<and>
               0 \<le> py (position s) + int cy \<and> py (position s) + int cy < int BOARD_HEIGHT) \<and>
         (\<exists>nb. mergeRows (map copyRow (board s)) (px (position s)) (py (position s)) (tetromino s) =
                 Inr (Merged nb) \<and> wf_board nb) \<and>
         (\<forall>k. \<exists>s'. mergeTetromino s k = Inr s' \<and> wf_board (board s'))"
proof -
  from reachable_invariant [OF assms] have inv: "invariant s" .
  then have "wf_board (board s)"
    by (simp add: invariant_def)
  moreover from inv have "\<forall>cy<length (tetromino s). \<forall>cx<length (tetromino s ! cy).
             truthy (tetromino s ! cy ! cx) \<longrightarrow>
               0 \<le> px (position s) + int cx \<and> px (position s) + int cx < int BOARD_WIDTH \<and>
               0 \<le> py (position s) + int cy \<and> py (position s) + int cy < int BOARD_HEIGHT"
    by (simp add: invariant_def inGrid_def)
  moreover note mergeRows_no_topOut [OF inv]
  moreover have "\<exists>s'. mergeTetromino s k = Inr s' \<and> wf_board (board s')" for k
    using mergeTetromino_invariant [OF inv, of k] by (auto simp: invariant_def)
  ultimately show ?thesis by blast
qed

theorem merge_stays_on_grid_witness:
  "wf_board (board (initial\<lparr>position := \<lparr>px = 3, py = 0\<rparr>\<rparr>)) \<and>
   (\<exists>s'. mergeTetromino (initial\<lparr>position := \<lparr>px = 3, py = 0\<rparr>\<rparr>) KL = Inr s' \<and> wf_board (board s'))"
proof -
  have "step (Key ArrowLeft) initial = Some (Inr (initial\<lparr>position := \<lparr>px = 3, py = 0\<rparr>\<rparr>))"
    by code_simp
  from reachable_step [OF reachable_initial this]
  have "reachable (initial\<lparr>position := \<lparr>px = 3, py = 0\<rparr>\<rparr>)" .
  from merge_stays_on_grid [OF this] show ?thesis by blast
qed

subsection \<open>Handlers of a run do not throw\<close>

lemma shaped_spawn: "tetromino s' = TETROMINOES k \<Longrightarrow> shaped s'"
  using TETROMINOES_box [of k] by (auto simp: shaped_def)

lemma shaped_same: "shaped s \<Longrightarrow> tetromino s' = tetromino s \<Longrightarrow> shaped s'"
  by (simp add: shaped_def)

lemma rotated_shaped:
  assumes "shaped s"
  shows "\<exists>rot h w. rotated (tetromino s) = Inr rot \<and> hasBox rot h w \<and> 0 < h \<and> 0 < w"
proof -
  from assms obtain h w where box: "hasBox (tetromino s) h w" and h: "0 < h" and w: "0 < w"
    by (auto simp: shaped_def)
  from rotated_box [OF box h] hasBox_rotated [OF box] h w show ?thesis by blast
qed

lemma isColliding_total:
  "length b = BOARD_HEIGHT \<Longrightarrow> \<exists>c. isColliding b pos shape = Inr c"
  by (simp add: isColliding_eq)

lemma moveDown_tetromino:
  "moveDown s = Inr (moved, s') \<Longrightarrow> tetromino s' = tetromino s"
  by (auto simp: moveDown_def Let_def split: sum.splits if_splits)

lemma moveHorizontal_tetromino:
  "moveHorizontal delta s = Inr s' \<Longrightarrow> tetromino s' = tetromino s"
  by (auto simp: moveHorizontal_def Let_def split: sum.splits if_splits)

lemma mergeTetromino_tetromino:
  "mergeTetromino s k = Inr s' \<Longrightarrow> tetromino s' = tetromino s \<or> tetromino s' = TETROMINOES k"
  by (auto simp: mergeTetromino_def getRandomTetromino_def split: sum.splits merged.splits prod.splits)

lemma rotate_shaped:
  assumes "shaped s" and "rotate s = Inr s'"
  shows "shaped s'"
proof -
  from rotated_shaped [OF assms(1)] obtain rot h w where
    rot: "rotated (tetromino s) = Inr rot" "hasBox rot h w" "0 < h" "0 < w"
    by blast
  with assms(2) have "tetromino s' = rot \<or> tetromino s' = tetromino s"
    by (auto simp: rotate_def split: sum.splits if_splits)
  with rot assms(1) show ?thesis unfolding shaped_def by metis
qed

lemma step_shaped:
  assumes "shaped s" and "step ev s = Some (Inr s')"
  shows "shaped s'"
proof (cases ev)
  case (Tick k)
  show ?thesis
  proof (cases "\<not> gameOver s \<and> \<not> isPaused s")
    case False
    with Tick assms show ?thesis by (auto simp: tick_def useInterval_def)
  next
    case True
    with Tick assms(2) have cb: "tickCallback s k = Inr s'"
      by (simp add: tick_def useInterval_def)
    show ?thesis
    proof (cases "moveDown s")
      case (Inl e)
      with cb show ?thesis by (simp add: tickCallback_def)
    next
      case (Inr p)
      obtain moved s1 where p: "p = (moved, s1)" by (cases p)
      show ?thesis
      proof (cases moved)
        case True
        with Inr p cb have "s' = s1" by (simp add: tickCallback_def)
        with moveDown_tetromino [of s moved s1] Inr p assms(1) show ?thesis
          by (simp add: shaped_same)
      next
        case False
        with Inr p cb have "mergeTetromino s k = Inr s'" by (simp add: tickCallback_def)
        from mergeTetromino_tetromino [OF this] assms(1) show ?thesis
          by (auto intro: shaped_same shaped_spawn)
      qed
    qed
  qed
next
  case (Key e)
  show ?thesis
  proof (cases "gameOver s \<or> isPaused s")
    case True
    from handleKeyPress_halted [OF True, of e] Key assms show ?thesis by simp
  next
    case False
    show ?thesis
    proof (cases e)
      case ArrowLeft
      with False Key assms(2) have "moveHorizontal (- 1) s = Inr s'" by simp
      from moveHorizontal_tetromino [OF this] assms(1) show ?thesis by (rule shaped_same [rotated])
    next
      case ArrowRight
      with False Key assms(2) have "moveHorizontal 1 s = Inr s'" by simp
      from moveHorizontal_tetromino [OF this] assms(1) show ?thesis by (rule shaped_same [rotated])
    next
      case ArrowDown
      with False Key assms(2) have m: "map_sum id snd (moveDown s) = Inr s'" by simp
      have "\<exists>moved. moveDown s = Inr (moved, s')"
      proof (cases "moveDown s")
        case (Inl err)
        with m show ?thesis by simp
      next
        case (Inr p)
        with m have "p = (fst p, s')" by (cases p) simp
        with Inr show ?thesis by metis
      qed
      then obtain moved where "moveDown s = Inr (moved, s')" ..
      from moveDown_tetromino [OF this] assms(1) show ?thesis by (rule shaped_same [rotated])
    next
      case ArrowUp
      with False Key assms(2) have "rotate s = Inr s'" by simp
      from rotate_shaped [OF assms(1) this] show ?thesis .
    next
      case Space
      with False Key assms(2) have "hardDropLoop s s = Some (Inr s')" by simp
      from hardDropLoop_result [OF this] assms(1) show ?thesis by simp
    next
      case OtherKey
      with False Key assms show ?thesis by simp
    qed
  qed
next
  case PauseClick
  with assms(2) have "tetromino s' = tetromino s" by (auto simp: togglePause_def)
  with assms(1) show ?thesis by (rule shaped_same)
next
  case (ResetClick k)
  with assms(2) have "tetromino s' = TETROMINOES k"
    by (auto simp: resetGame_def getRandomTetromino_def)
  then show ?thesis by (rule shaped_spawn)
qed

lemma reachable_shaped: "reachable s \<Longrightarrow> shaped s"
proof (induction rule: reachable.induct)
  case reachable_initial
  show ?case by (rule shaped_spawn [of _ KI]) (simp add: initial_def)
next
  case (reachable_step s ev s')
  then show ?case by (auto intro: step_shaped)
qed

text \<open>
  In a run no handler throws: a step either yields the next state or, for the hard
  drop of a piece that can still move down, does not return.
\<close>

lemma reachable_no_throw:
  assumes "reachable s"
  shows "step ev s \<noteq> Some (Inl e)"
proof -
  from reachable_invariant [OF assms] have inv: "invariant s" .
  then have len: "length (board s) = BOARD_HEIGHT" by (simp add: invariant_def wf_board_def)
  from reachable_shaped [OF assms] have sh: "shaped s" .
  have md: "moveDown s \<noteq> Inl e" for e
    using isColliding_total [OF len, of "(position s)\<lparr>py := py (position s) + 1\<rparr>" "tetromino s"]
    by (auto simp: moveDown_def Let_def split: if_splits)
  have mh: "moveHorizontal delta s \<noteq> Inl e" for delta e
    using isColliding_total [OF len, of "(position s)\<lparr>px := px (position s) + delta\<rparr>" "tetromino s"]
    by (auto simp: moveHorizontal_def Let_def split: if_splits)
  have ro: "rotate s \<noteq> Inl e" for e
  proof -
    from rotated_shaped [OF sh] obtain rot where rot: "rotated (tetromino s) = Inr rot" by blast
    with isColliding_total [OF len, of "position s" rot] show ?thesis
      by (auto simp: rotate_def split: if_splits)
  qed
  have mt: "mergeTetromino s k \<noteq> Inl e" for k e
    using mergeTetromino_invariant [OF inv, of k] by auto
  show ?thesis
  proof (cases ev)
    case (Tick k)
    have "tickCallback s k \<noteq> Inl e"
    proof (cases "moveDown s")
      case (Inl err)
      with md [of err] show ?thesis by simp
    next
      case (Inr p)
      with mt [of k e] show ?thesis by (cases p) (simp add: tickCallback_def)
    qed
    with Tick show ?thesis by (simp add: tick_def useInterval_def)
  next
    case (Key k)
    show ?thesis
    proof (cases "gameOver s \<or> isPaused s")
      case True
      from handleKeyPress_halted [OF True, of k] Key show ?thesis by simp
    next
      case False
      show ?thesis
      proof (cases k)
        case ArrowLeft
        with False Key mh show ?thesis by simp
      next
        case ArrowRight
        with False Key mh show ?thesis by simp
      next
        case ArrowDown
        have "map_sum id snd (moveDown s) \<noteq> Inl e"
          using md [of e] by (cases "moveDown s") simp_all
        with ArrowDown False Key show ?thesis by simp
      next
        case ArrowUp
        with False Key ro show ?thesis by simp
      next
        case Space
        have "hardDropLoop s s \<noteq> Some (Inl e)"
        proof
          assume h: "hardDropLoop s s = Some (Inl e)"
          show False
          proof (cases "moveDown s")
            case (Inl err)
            with md [of err] show False by simp
          next
            case (Inr p)
            obtain moved s1 where p: "p = (moved, s1)" by (cases p)
            with hardDropLoop_returns [OF h] Inr have "moveDown s = Inr (False, s1)"
              by (cases moved) auto
            from hardDropLoop_stuck [OF this, of s] h show False by simp
          qed
        qed
        with Space False Key show ?thesis by simp
      next
        case OtherKey
        with False Key show ?thesis by simp
      qed
    qed
  next
    case PauseClick
    then show ?thesis by simp
  next
    case (ResetClick k)
    then show ?thesis by simp
  qed
qed

end
